theory Spec2Isabelle
  imports Main "HOL-Library.Word" "HOL-Library.List_Lexorder"
begin

unbundle bit_operations_syntax

section \<open>Common types\<close>

text \<open>
  \<^verbatim>\<open>common.h\<close>: \<open>page_id_t\<close> is \<open>int32_t\<close> and \<open>INVALID_PAGE_ID\<close> is \<open>-1\<close>.
  A page buffer is \<open>char data_[PAGE_SIZE]\<close> with \<open>PAGE_SIZE = 4096\<close>
  (\<^verbatim>\<open>buffer_pool.h\<close>); it is modelled as a list of bytes. Multi-byte integers are stored
  by \<open>memcpy\<close> in host byte order; the model fixes little-endian order.
\<close>

type_synonym byte = "8 word"
type_synonym page_id_t = "32 word"

definition INVALID_PAGE_ID :: page_id_t where
  "INVALID_PAGE_ID = - 1"

definition PAGE_SIZE :: nat where
  "PAGE_SIZE = 4096"

text \<open>
  Exceptions of the source are \<open>std::runtime_error\<close> with a message. A read or write
  outside a buffer is undefined behaviour in C++; the model makes it an error value of
  its own, so that no theorem speaks about an execution that has none.
\<close>

datatype error = RuntimeError string | UndefinedBehaviour

definition le16 :: "16 word \<Rightarrow> byte list" where
  "le16 w = [ucast w, ucast (drop_bit 8 w)]"

definition le32 :: "32 word \<Rightarrow> byte list" where
  "le32 w = [ucast w, ucast (drop_bit 8 w), ucast (drop_bit 16 w), ucast (drop_bit 24 w)]"

definition le64 :: "64 word \<Rightarrow> byte list" where
  "le64 w = [ucast w, ucast (drop_bit 8 w), ucast (drop_bit 16 w), ucast (drop_bit 24 w),
     ucast (drop_bit 32 w), ucast (drop_bit 40 w), ucast (drop_bit 48 w), ucast (drop_bit 56 w)]"

fun le_word :: "byte list \<Rightarrow> 'a::len word" where
  "le_word [] = 0"
| "le_word (b # bs) = ucast b OR push_bit 8 (le_word bs)"

fun le_bytes :: "nat \<Rightarrow> 'a::len word \<Rightarrow> byte list" where
  "le_bytes 0 w = []"
| "le_bytes (Suc n) w = ucast w # le_bytes n (drop_bit 8 w)"

text \<open>\<open>memcpy(dst + off, src, length src)\<close> inside one buffer.\<close>

definition memcpy :: "byte list \<Rightarrow> nat \<Rightarrow> byte list \<Rightarrow> byte list" where
  "memcpy d off src = take off d @ src @ drop (off + length src) d"

definition rd16 :: "byte list \<Rightarrow> nat \<Rightarrow> 16 word" where
  "rd16 d off = le_word (take 2 (drop off d))"

definition wr16 :: "byte list \<Rightarrow> nat \<Rightarrow> 16 word \<Rightarrow> byte list" where
  "wr16 d off v = memcpy d off (le16 v)"

section \<open>Slotted page (\<^verbatim>\<open>slotted_page.cpp\<close>)\<close>

text \<open>
  \<open>PageHeader\<close> is \<open>num_slots | free_space_begin | free_space_end | reserved\<close>, four
  \<open>uint16_t\<close> at byte offsets 0, 2, 4, 6; \<open>SlotEntry i\<close> is \<open>offset | length\<close> at byte
  offset \<open>8 + 4 * i\<close>. The accessors below are the field reads and writes through
  \<open>GetHeader\<close> and \<open>GetSlotEntry\<close>.
\<close>

definition num_slots :: "byte list \<Rightarrow> 16 word" where
  "num_slots d = rd16 d 0"

definition free_space_begin :: "byte list \<Rightarrow> 16 word" where
  "free_space_begin d = rd16 d 2"

definition free_space_end :: "byte list \<Rightarrow> 16 word" where
  "free_space_end d = rd16 d 4"

definition set_num_slots :: "byte list \<Rightarrow> 16 word \<Rightarrow> byte list" where
  "set_num_slots d v = wr16 d 0 v"

definition set_free_space_begin :: "byte list \<Rightarrow> 16 word \<Rightarrow> byte list" where
  "set_free_space_begin d v = wr16 d 2 v"

definition set_free_space_end :: "byte list \<Rightarrow> 16 word \<Rightarrow> byte list" where
  "set_free_space_end d v = wr16 d 4 v"

definition set_reserved :: "byte list \<Rightarrow> 16 word \<Rightarrow> byte list" where
  "set_reserved d v = wr16 d 6 v"

definition slot_in_bounds :: "byte list \<Rightarrow> nat \<Rightarrow> bool" where
  "slot_in_bounds d i = (8 + 4 * i + 4 \<le> length d)"

definition slot_offset :: "byte list \<Rightarrow> nat \<Rightarrow> 16 word" where
  "slot_offset d i = rd16 d (8 + 4 * i)"

definition slot_length :: "byte list \<Rightarrow> nat \<Rightarrow> 16 word" where
  "slot_length d i = rd16 d (8 + 4 * i + 2)"

definition set_slot_offset :: "byte list \<Rightarrow> nat \<Rightarrow> 16 word \<Rightarrow> byte list" where
  "set_slot_offset d i v = wr16 d (8 + 4 * i) v"

definition set_slot_length :: "byte list \<Rightarrow> nat \<Rightarrow> 16 word \<Rightarrow> byte list" where
  "set_slot_length d i v = wr16 d (8 + 4 * i + 2) v"

text \<open>\<open>SlottedPage::Init(page_data, page_size)\<close>; callers pass the default 4096.\<close>

definition Init :: "byte list \<Rightarrow> 16 word \<Rightarrow> error + byte list" where
  "Init page_data page_size =
     (if unat page_size > length page_data \<or> length page_data < 8 then Inl UndefinedBehaviour
      else
        let d0 = memcpy page_data 0 (replicate (unat page_size) 0);
            d1 = set_num_slots d0 0;
            d2 = set_free_space_begin d1 8;
            d3 = set_free_space_end d2 page_size
        in Inr (set_reserved d3 0))"

text \<open>
  The first loop of \<open>InsertRecord\<close>: the lowest slot whose length is 0, as the
  \<open>int16_t target_slot\<close> (\<open>-1\<close> when there is none).
\<close>

function find_free_slot :: "byte list \<Rightarrow> nat \<Rightarrow> nat \<Rightarrow> error + 16 word" where
  "find_free_slot d n i =
     (if i < n then
        (if \<not> slot_in_bounds d i then Inl UndefinedBehaviour
         else if slot_length d i = 0 then Inr (of_nat i)
         else find_free_slot d n (i + 1))
      else Inr (- 1))"
  by pat_completeness auto
termination
  by (relation "measure (\<lambda>(d, n, i). n - i)") auto

declare find_free_slot.simps [simp del]

text \<open>
  \<open>InsertRecord\<close> returns the \<open>int16_t\<close> slot, \<open>-1\<close> for "not enough space". The
  comparison \<open>free_space_end - free_space_begin < space_needed\<close> is on \<open>int\<close> after
  integer promotion; \<open>space_needed\<close> and \<open>free_space_end -= record_len\<close> are
  \<open>uint16_t\<close> and wrap. \<open>record\<close> is the caller's buffer, of which \<open>record_len\<close> bytes
  are copied. \<open>reserve_record\<close> is line 67, \<open>header->free_space_end -= record_len\<close>:
  the page as it is once the space check has passed and before the record is copied.
\<close>

definition reserve_record :: "byte list \<Rightarrow> 16 word \<Rightarrow> byte list" where
  "reserve_record page_data record_len =
     set_free_space_end page_data (free_space_end page_data - record_len)"

definition InsertRecord :: "byte list \<Rightarrow> byte list \<Rightarrow> 16 word \<Rightarrow> error + (byte list \<times> 16 word)" where
  "InsertRecord page_data record record_len =
     (case find_free_slot page_data (unat (num_slots page_data)) 0 of
        Inl e \<Rightarrow> Inl e
      | Inr target_slot \<Rightarrow>
          let space_needed = (if target_slot = - 1 then record_len + 4 else record_len) in
          if int (unat (free_space_end page_data)) - int (unat (free_space_begin page_data))
               < int (unat space_needed)
          then Inr (page_data, - 1)
          else
            let d1 = reserve_record page_data record_len in
            if unat (free_space_end d1) + unat record_len > length d1
                 \<or> unat record_len > length record
            then Inl UndefinedBehaviour
            else
              let d2 = memcpy d1 (unat (free_space_end d1)) (take (unat record_len) record);
                  target_slot' = (if target_slot = - 1 then num_slots d2 else target_slot);
                  d3 = (if target_slot = - 1
                        then (let d2' = set_num_slots d2 (num_slots d2 + 1)
                              in set_free_space_begin d2' (free_space_begin d2' + 4))
                        else d2)
              in if \<not> slot_in_bounds d3 (unat target_slot') then Inl UndefinedBehaviour
                 else
                   let d4 = set_slot_offset d3 (unat target_slot') (free_space_end d3);
                       d5 = set_slot_length d4 (unat target_slot') record_len
                   in Inr (d5, target_slot'))"

definition DeleteRecord :: "byte list \<Rightarrow> 16 word \<Rightarrow> error + (byte list \<times> bool)" where
  "DeleteRecord page_data slot_id =
     (if slot_id \<ge> num_slots page_data then Inr (page_data, False)
      else if \<not> slot_in_bounds page_data (unat slot_id) then Inl UndefinedBehaviour
      else if slot_length page_data (unat slot_id) = 0 then Inr (page_data, False)
      else
        let d1 = set_slot_length page_data (unat slot_id) 0;
            d2 = set_slot_offset d1 (unat slot_id) 0
        in Inr (d2, True))"

text \<open>\<open>GetRecord\<close>: \<open>None\<close> is the \<open>nullptr\<close> result; otherwise the bytes the pointer
  and \<open>out_len\<close> denote.\<close>

definition GetRecord :: "byte list \<Rightarrow> 16 word \<Rightarrow> error + byte list option" where
  "GetRecord page_data slot_id =
     (if slot_id \<ge> num_slots page_data then Inr None
      else if \<not> slot_in_bounds page_data (unat slot_id) then Inl UndefinedBehaviour
      else if slot_length page_data (unat slot_id) = 0 then Inr None
      else Inr (Some (take (unat (slot_length page_data (unat slot_id)))
                        (drop (unat (slot_offset page_data (unat slot_id))) page_data))))"

definition UpdateRecord :: "byte list \<Rightarrow> 16 word \<Rightarrow> byte list \<Rightarrow> 16 word \<Rightarrow> error + (byte list \<times> bool)" where
  "UpdateRecord page_data slot_id record record_len =
     (if slot_id \<ge> num_slots page_data then Inr (page_data, False)
      else if \<not> slot_in_bounds page_data (unat slot_id) then Inl UndefinedBehaviour
      else if slot_length page_data (unat slot_id) = 0 then Inr (page_data, False)
      else if record_len \<le> slot_length page_data (unat slot_id) then
        (if unat (slot_offset page_data (unat slot_id)) + unat record_len > length page_data
              \<or> unat record_len > length record
         then Inl UndefinedBehaviour
         else
           let d1 = memcpy page_data (unat (slot_offset page_data (unat slot_id)))
                      (take (unat record_len) record)
           in if \<not> slot_in_bounds d1 (unat slot_id) then Inl UndefinedBehaviour
              else Inr (set_slot_length d1 (unat slot_id) record_len, True))
      else Inr (page_data, False))"

definition GetFreeSpace :: "byte list \<Rightarrow> 16 word" where
  "GetFreeSpace page_data =
     (if free_space_end page_data \<le> free_space_begin page_data then 0
      else free_space_end page_data - free_space_begin page_data)"

definition GetNumSlots :: "byte list \<Rightarrow> 16 word" where
  "GetNumSlots page_data = num_slots page_data"

text \<open>
  The layout invariant of a slotted page in a 4096-byte frame (spec section 3):
  the slot directory ends where the free space begins, the free space ends inside
  the page, and every live slot points into the record area.
\<close>

definition live_slot_ok :: "byte list \<Rightarrow> nat \<Rightarrow> bool" where
  "live_slot_ok d i \<longleftrightarrow>
     slot_length d i = 0 \<or>
     (unat (free_space_end d) \<le> unat (slot_offset d i) \<and>
      unat (slot_offset d i) + unat (slot_length d i) \<le> PAGE_SIZE)"

definition wf_page :: "byte list \<Rightarrow> bool" where
  "wf_page d \<longleftrightarrow>
     length d = PAGE_SIZE \<and>
     unat (free_space_begin d) = 8 + 4 * unat (num_slots d) \<and>
     unat (free_space_begin d) \<le> unat (free_space_end d) \<and>
     unat (free_space_end d) \<le> PAGE_SIZE \<and>
     list_all (live_slot_ok d) [0..<unat (num_slots d)]"


text \<open>Example pages: a page right after \<open>Init\<close>, with one three-byte record, with
  that record deleted, and with the tombstone reused by a one-byte record.\<close>

definition empty_page :: "byte list" where
  "empty_page = [0,0,8,0,0,16,0,0] @ replicate 4088 0"

definition page_one_record :: "byte list" where
  "page_one_record = [1,0,12,0,253,15,0,0,253,15,3,0] @ replicate 4081 0 @ [1,2,3]"

definition page_tombstone :: "byte list" where
  "page_tombstone = [1,0,12,0,253,15,0,0,0,0,0,0] @ replicate 4081 0 @ [1,2,3]"

definition page_reused :: "byte list" where
  "page_reused = [1,0,12,0,252,15,0,0,252,15,1,0] @ replicate 4080 0 @ [9,1,2,3]"

section \<open>Buffer pool (\<^verbatim>\<open>buffer_pool.cpp\<close>), as the storage layers see it\<close>

text \<open>
  The heap file, the free-space map and the recovery manager use the pool through
  \<open>FetchPage\<close>, \<open>NewPage\<close> and \<open>UnpinPage\<close> only, and they report a page dirty
  whenever they wrote to it. The model keeps that contract and leaves frames and the
  LRU list out: \<open>pages\<close> holds the current bytes of every page (a page never written
  reads as zeros, as \<open>DiskManager::ReadPage\<close> fills it), \<open>next_page_id\<close> is the disk
  manager's allocation counter, and the \<open>nullptr\<close> results of \<open>FetchPage\<close> and
  \<open>NewPage\<close> (no free frame and no victim) are decided by \<open>fetchable\<close> and
  \<open>can_new\<close>. A write through the returned pointer is \<open>WritePage\<close>.
\<close>

record BufferPool =
  pages :: "page_id_t \<Rightarrow> byte list"
  next_page_id :: page_id_t
  fetchable :: "page_id_t \<Rightarrow> bool"
  can_new :: bool

definition FetchPage :: "BufferPool \<Rightarrow> page_id_t \<Rightarrow> byte list option" where
  "FetchPage bpm page_id = (if fetchable bpm page_id then Some (pages bpm page_id) else None)"

definition WritePage :: "BufferPool \<Rightarrow> page_id_t \<Rightarrow> byte list \<Rightarrow> BufferPool" where
  "WritePage bpm page_id d = bpm\<lparr>pages := (pages bpm)(page_id := d)\<rparr>"

definition NewPage :: "BufferPool \<Rightarrow> (page_id_t \<times> BufferPool) option" where
  "NewPage bpm =
     (if can_new bpm
      then Some (next_page_id bpm,
                 bpm\<lparr>pages := (pages bpm)(next_page_id bpm := replicate PAGE_SIZE 0),
                     next_page_id := next_page_id bpm + 1\<rparr>)
      else None)"

section \<open>Free-space map (\<^verbatim>\<open>free_space_map.cpp\<close>)\<close>

record FreeSpaceMap =
  fsm_start_page :: page_id_t
  page_size :: "16 word"
  entries_per_page :: "16 word"

definition FreeSpaceMap_new :: "page_id_t \<Rightarrow> 16 word \<Rightarrow> FreeSpaceMap" where
  "FreeSpaceMap_new start ps = \<lparr>fsm_start_page = start, page_size = ps, entries_per_page = ps\<rparr>"

definition GRANULARITY :: "16 word" where
  "GRANULARITY = 16"

definition BytesToCategory :: "16 word \<Rightarrow> byte" where
  "BytesToCategory free_bytes = (let cat = free_bytes div GRANULARITY in ucast (min cat 255))"

definition CategoryToBytes :: "byte \<Rightarrow> 16 word" where
  "CategoryToBytes category = ucast category * GRANULARITY"

text \<open>
  \<open>GetFSMLocation\<close>: \<open>heap_page_id / entries_per_page_\<close> and \<open>%\<close> are \<open>int\<close> operations
  that truncate towards zero; the offset is then cast to \<open>uint16_t\<close>. Division by zero
  is undefined behaviour.
\<close>

definition c_div :: "int \<Rightarrow> int \<Rightarrow> int" where
  "c_div a b = sgn a * sgn b * (\<bar>a\<bar> div \<bar>b\<bar>)"

definition c_mod :: "int \<Rightarrow> int \<Rightarrow> int" where
  "c_mod a b = a - b * c_div a b"

definition GetFSMLocation :: "FreeSpaceMap \<Rightarrow> page_id_t \<Rightarrow> error + (page_id_t \<times> 16 word)" where
  "GetFSMLocation fsm heap_page_id =
     (if entries_per_page fsm = 0 then Inl UndefinedBehaviour
      else Inr (fsm_start_page fsm + of_int (c_div (sint heap_page_id) (uint (entries_per_page fsm))),
                of_int (c_mod (sint heap_page_id) (uint (entries_per_page fsm)))))"

text \<open>The scan loop of \<open>FindPageWithSpace\<close> over \<open>data[i]\<close>, \<open>i < entries_per_page_\<close>.\<close>

function fsm_scan :: "byte list \<Rightarrow> byte \<Rightarrow> nat \<Rightarrow> nat \<Rightarrow> error + page_id_t" where
  "fsm_scan data needed_cat n i =
     (if i < n then
        (if i \<ge> length data then Inl UndefinedBehaviour
         else if data ! i \<ge> needed_cat \<and> data ! i > 0 then Inr (of_nat i)
         else fsm_scan data needed_cat n (i + 1))
      else Inr INVALID_PAGE_ID)"
  by pat_completeness auto
termination
  by (relation "measure (\<lambda>(data, c, n, i). n - i)") auto

declare fsm_scan.simps [simp del]

definition FindPageWithSpace :: "FreeSpaceMap \<Rightarrow> BufferPool \<Rightarrow> 16 word \<Rightarrow> error + page_id_t" where
  "FindPageWithSpace fsm bpm needed_bytes =
     (let needed_cat = BytesToCategory needed_bytes in
      case FetchPage bpm (fsm_start_page fsm) of
        None \<Rightarrow> Inr INVALID_PAGE_ID
      | Some data \<Rightarrow> fsm_scan data needed_cat (unat (entries_per_page fsm)) 0)"

definition UpdateFreeSpace :: "FreeSpaceMap \<Rightarrow> BufferPool \<Rightarrow> page_id_t \<Rightarrow> 16 word \<Rightarrow> error + BufferPool" where
  "UpdateFreeSpace fsm bpm heap_page_id free_bytes =
     (case GetFSMLocation fsm heap_page_id of
        Inl e \<Rightarrow> Inl e
      | Inr (fsm_page_id, offset) \<Rightarrow>
          (case FetchPage bpm fsm_page_id of
             None \<Rightarrow> Inr bpm
           | Some data \<Rightarrow>
               if unat offset \<ge> length data then Inl UndefinedBehaviour
               else Inr (WritePage bpm fsm_page_id
                           (data[unat offset := BytesToCategory free_bytes]))))"

definition RegisterNewPage :: "FreeSpaceMap \<Rightarrow> BufferPool \<Rightarrow> page_id_t \<Rightarrow> 16 word \<Rightarrow> error + BufferPool" where
  "RegisterNewPage fsm bpm heap_page_id free_bytes = UpdateFreeSpace fsm bpm heap_page_id free_bytes"

text \<open>
  The claimed search rule of \<open>find_page_with_space\<close>, in the spec's words: the first
  byte whose category is at least \<open>ceil(n / 16)\<close> and greater than zero.
\<close>

definition spec_find_page_with_space :: "byte list \<Rightarrow> nat \<Rightarrow> nat \<Rightarrow> page_id_t" where
  "spec_find_page_with_space data entries n =
     (case find (\<lambda>i. (n + 15) div 16 \<le> unat (data ! i) \<and> 0 < unat (data ! i)) [0..<entries] of
        None \<Rightarrow> INVALID_PAGE_ID
      | Some i \<Rightarrow> of_nat i)"

section \<open>Documents and the serializer (\<^verbatim>\<open>bson_types.h\<close>, \<^verbatim>\<open>serializer.cpp\<close>)\<close>

text \<open>
  \<open>BsonValue\<close> is the \<open>std::variant\<close>; a \<open>double\<close> is kept as its 64 bits, which is
  all the serializer does with it (\<open>memcpy\<close>). A \<open>std::string\<close> is a byte list.
  \<open>BsonDocument::elements\<close> is a \<open>std::map\<close>: the list of its entries in key order.
\<close>

datatype BsonValue =
    BsonDouble "64 word"
  | BsonString "byte list"
  | BsonDocumentPtr "(byte list \<times> BsonValue) list"
  | BsonBoolean bool
  | BsonInt32 "32 word"
  | BsonInt64 "64 word"
  | BsonNull

type_synonym BsonDocument = "(byte list \<times> BsonValue) list"

definition AppendCString :: "byte list \<Rightarrow> byte list" where
  "AppendCString v = v @ [0]"

definition AppendString :: "byte list \<Rightarrow> byte list" where
  "AppendString v = le32 (of_nat (length v + 1)) @ AppendCString v"

text \<open>
  \<open>Serialize\<close>: the size placeholder, one \<open>type | key | value\<close> group per element in
  map order, the terminator, and then the size patched in as \<open>int32_t\<close>. The
  \<open>if\<close>-chain has no branch for \<open>std::nullptr_t\<close>: such an element adds nothing.
\<close>

fun Serialize :: "(byte list \<times> BsonValue) list \<Rightarrow> byte list"
  and serialize_elements :: "(byte list \<times> BsonValue) list \<Rightarrow> byte list"
  and serialize_element :: "byte list \<Rightarrow> BsonValue \<Rightarrow> byte list" where
  "Serialize doc =
     (let body = serialize_elements doc @ [0]
      in le32 (of_nat (4 + length body)) @ body)"
| "serialize_elements [] = []"
| "serialize_elements ((key, v) # es) = serialize_element key v @ serialize_elements es"
| "serialize_element key (BsonDouble x) = 0x01 # AppendCString key @ le64 x"
| "serialize_element key (BsonString x) = 0x02 # AppendCString key @ AppendString x"
| "serialize_element key (BsonInt32 x) = 0x10 # AppendCString key @ le32 x"
| "serialize_element key (BsonInt64 x) = 0x12 # AppendCString key @ le64 x"
| "serialize_element key (BsonBoolean x) = 0x08 # AppendCString key @ [if x then 0x01 else 0x00]"
| "serialize_element key (BsonDocumentPtr sub) = 0x03 # AppendCString key @ Serialize sub"
| "serialize_element key BsonNull = []"

declare Serialize.simps [simp del]

text \<open>
  \<open>BsonDocument::Add\<close> is \<open>elements[key] = value\<close> on the \<open>std::map\<close>: the entry is
  replaced or inserted at its place in key order (\<open>std::string\<close> order, lexicographic
  on unsigned bytes).
\<close>

fun Add :: "BsonDocument \<Rightarrow> byte list \<Rightarrow> BsonValue \<Rightarrow> BsonDocument" where
  "Add [] key v = [(key, v)]"
| "Add ((k, x) # es) key v =
     (if key < k then (key, v) # (k, x) # es
      else if key = k then (key, v) # es
      else (k, x) # Add es key v)"

text \<open>
  The readers of the deserializer take the buffer from the pointer they are given to
  the end of the allocation, and an offset of type \<open>size_t\<close>. None of them compares
  the offset with a size: reading past the end of the buffer is undefined behaviour.
  An \<open>int32_t\<close> that is added to or compared with a \<open>size_t\<close> is converted to it
  (sign-extended, modulo \<open>2^64\<close>).
\<close>

definition size_t_of_int32 :: "32 word \<Rightarrow> nat" where
  "size_t_of_int32 w = nat (sint w mod 2 ^ 64)"

definition size_t_add :: "nat \<Rightarrow> nat \<Rightarrow> nat" where
  "size_t_add a b = (a + b) mod 2 ^ 64"

definition ReadInt32 :: "byte list \<Rightarrow> nat \<Rightarrow> error + (32 word \<times> nat)" where
  "ReadInt32 data offset =
     (if offset + 4 > length data then Inl UndefinedBehaviour
      else Inr (le_word (take 4 (drop offset data)), offset + 4))"

definition ReadInt64 :: "byte list \<Rightarrow> nat \<Rightarrow> error + (64 word \<times> nat)" where
  "ReadInt64 data offset =
     (if offset + 8 > length data then Inl UndefinedBehaviour
      else Inr (le_word (take 8 (drop offset data)), offset + 8))"

definition ReadDouble :: "byte list \<Rightarrow> nat \<Rightarrow> error + (64 word \<times> nat)" where
  "ReadDouble data offset = ReadInt64 data offset"

text \<open>\<open>ReadCString\<close>: \<open>strlen\<close> runs to the first zero byte.\<close>

definition ReadCString :: "byte list \<Rightarrow> nat \<Rightarrow> error + (byte list \<times> nat)" where
  "ReadCString data offset =
     (let s = takeWhile (\<lambda>b. b \<noteq> 0) (drop offset data) in
      if offset + length s \<ge> length data then Inl UndefinedBehaviour
      else Inr (s, offset + length s + 1))"

text \<open>
  \<open>ReadString\<close>: \<open>std::string str(data + offset, len - 1)\<close>; with \<open>len \<le> 0\<close> the
  count converts to a \<open>size_t\<close> beyond \<open>max_size()\<close> and the constructor throws
  \<open>std::length_error\<close> (\<open>len - 1\<close> overflows for the least \<open>int32_t\<close>).
\<close>

definition ReadString :: "byte list \<Rightarrow> nat \<Rightarrow> error + (byte list \<times> nat)" where
  "ReadString data offset =
     (case ReadInt32 data offset of
        Inl e \<Rightarrow> Inl e
      | Inr (len, offset1) \<Rightarrow>
          if sint len = - (2 ^ 31) then Inl UndefinedBehaviour
          else if sint len \<le> 0 then Inl (RuntimeError ''basic_string::_M_create'')
          else if offset1 + (nat (sint len) - 1) > length data then Inl UndefinedBehaviour
          else Inr (take (nat (sint len) - 1) (drop offset1 data), size_t_add offset1 (nat (sint len))))"

text \<open>
  \<open>Deserialize(data, size)\<close>. \<open>deserialize_loop\<close> is the \<open>while\<close> loop; \<open>bound\<close> is
  \<open>(size_t)doc_size - 1\<close>. The case \<open>DOCUMENT\<close> calls \<open>Deserialize(data + offset, sub_len)\<close>,
  whose header check and loop are written out in place. Nothing bounds the number of
  iterations on arbitrary bytes (an offset can move backwards), so not returning is the
  value \<open>None\<close>.
\<close>

definition loop_bound :: "32 word \<Rightarrow> nat" where
  "loop_bound doc_size = nat ((sint doc_size - 1) mod 2 ^ 64)"

partial_function (option) deserialize_loop ::
  "byte list \<Rightarrow> nat \<Rightarrow> nat \<Rightarrow> BsonDocument \<Rightarrow> (error + BsonDocument) option" where
  "deserialize_loop data bound offset doc =
     (if \<not> offset < bound then Some (Inr doc)
      else if offset \<ge> length data then Some (Inl UndefinedBehaviour)
      else
        let type_byte = data ! offset in
        if type_byte = 0x00 then Some (Inr doc)
        else
          (case ReadCString data (offset + 1) of
             Inl e \<Rightarrow> Some (Inl e)
           | Inr (key, offset2) \<Rightarrow>
               if type_byte = 0x10 then
                 (case ReadInt32 data offset2 of
                    Inl e \<Rightarrow> Some (Inl e)
                  | Inr (v, offset3) \<Rightarrow> deserialize_loop data bound offset3 (Add doc key (BsonInt32 v)))
               else if type_byte = 0x12 then
                 (case ReadInt64 data offset2 of
                    Inl e \<Rightarrow> Some (Inl e)
                  | Inr (v, offset3) \<Rightarrow> deserialize_loop data bound offset3 (Add doc key (BsonInt64 v)))
               else if type_byte = 0x01 then
                 (case ReadDouble data offset2 of
                    Inl e \<Rightarrow> Some (Inl e)
                  | Inr (v, offset3) \<Rightarrow> deserialize_loop data bound offset3 (Add doc key (BsonDouble v)))
               else if type_byte = 0x02 then
                 (case ReadString data offset2 of
                    Inl e \<Rightarrow> Some (Inl e)
                  | Inr (v, offset3) \<Rightarrow> deserialize_loop data bound offset3 (Add doc key (BsonString v)))
               else if type_byte = 0x08 then
                 (if offset2 \<ge> length data then Some (Inl UndefinedBehaviour)
                  else deserialize_loop data bound (offset2 + 1)
                         (Add doc key (BsonBoolean (data ! offset2 = 0x01))))
               else if type_byte = 0x03 then
                 (case ReadInt32 data offset2 of
                    Inl e \<Rightarrow> Some (Inl e)
                  | Inr (sub_len, offset_unused) \<Rightarrow>
                      (case ReadInt32 (drop offset2 data) 0 of
                         Inl e \<Rightarrow> Some (Inl e)
                       | Inr (doc_size, sub_offset) \<Rightarrow>
                           if size_t_of_int32 doc_size > size_t_of_int32 sub_len
                           then Some (Inl (RuntimeError ''Corrupted BSON: Size mismatch''))
                           else
                             Option.bind
                               (deserialize_loop (drop offset2 data) (loop_bound doc_size) sub_offset [])
                               (\<lambda>r. case r of
                                  Inl e \<Rightarrow> Some (Inl e)
                                | Inr sub \<Rightarrow>
                                    deserialize_loop data bound
                                      (size_t_add offset2 (size_t_of_int32 sub_len))
                                      (Add doc key (BsonDocumentPtr sub)))))
               else Some (Inl (RuntimeError ''Unknown BSON Type''))))"

definition Deserialize :: "byte list \<Rightarrow> nat \<Rightarrow> (error + BsonDocument) option" where
  "Deserialize data sz =
     (case ReadInt32 data 0 of
        Inl e \<Rightarrow> Some (Inl e)
      | Inr (doc_size, offset) \<Rightarrow>
          if size_t_of_int32 doc_size > sz
          then Some (Inl (RuntimeError ''Corrupted BSON: Size mismatch''))
          else deserialize_loop data (loop_bound doc_size) offset [])"

text \<open>\<open>Deserialize(const std::vector<uint8_t>&)\<close> passes \<open>data.data()\<close> and \<open>data.size()\<close>.\<close>

definition Deserialize_vector :: "byte list \<Rightarrow> (error + BsonDocument) option" where
  "Deserialize_vector data = Deserialize data (length data)"

text \<open>
  Example documents: \<open>{active: true, age: 30, name: "Alice", score: 95.5}\<close> (field
  names and the string in ASCII, \<open>95.5\<close> as its IEEE 754 bits) with its encoding, a
  document whose only field name is the three bytes \<open>61 00 62\<close>, and a document with
  one null field.
\<close>

definition alice_document :: BsonDocument where
  "alice_document =
     [([97, 99, 116, 105, 118, 101], BsonBoolean True),
      ([97, 103, 101], BsonInt32 30),
      ([110, 97, 109, 101], BsonString [65, 108, 105, 99, 101]),
      ([115, 99, 111, 114, 101], BsonDouble 0x4057E00000000000)]"

definition alice_bytes :: "byte list" where
  "alice_bytes =
     [54, 0, 0, 0,
      8, 97, 99, 116, 105, 118, 101, 0, 1,
      16, 97, 103, 101, 0, 30, 0, 0, 0,
      2, 110, 97, 109, 101, 0, 6, 0, 0, 0, 65, 108, 105, 99, 101, 0,
      1, 115, 99, 111, 114, 101, 0, 0, 0, 0, 0, 0, 0xE0, 0x57, 0x40,
      0]"

definition nul_key_document :: BsonDocument where
  "nul_key_document = [([97, 0, 98], BsonInt32 1)]"

definition null_document :: BsonDocument where
  "null_document = [([97], BsonNull)]"

text \<open>
  The documents the codec can carry. The key order is the invariant of the \<open>std::map\<close>
  (at every depth), so it holds for every document of the program; the other two
  conditions are restrictions: no field name contains a zero byte (a key is written as a
  C string), and no value is \<open>nullptr\<close> (no branch writes it). The \<open>shared_ptr\<close> of a
  nested document is taken to point to a document: \<open>Serialize\<close> dereferences it.
\<close>

fun encodable_doc :: "BsonDocument \<Rightarrow> bool"
  and encodable_elements :: "BsonDocument \<Rightarrow> bool"
  and encodable_value :: "BsonValue \<Rightarrow> bool" where
  "encodable_doc doc = (sorted_wrt (<) (map fst doc) \<and> encodable_elements doc)"
| "encodable_elements [] = True"
| "encodable_elements ((key, v) # es) = (0 \<notin> set key \<and> encodable_value v \<and> encodable_elements es)"
| "encodable_value (BsonDouble x) = True"
| "encodable_value (BsonString x) = True"
| "encodable_value (BsonDocumentPtr sub) = encodable_doc sub"
| "encodable_value (BsonBoolean x) = True"
| "encodable_value (BsonInt32 x) = True"
| "encodable_value (BsonInt64 x) = True"
| "encodable_value BsonNull = False"

section \<open>Heap file (\<^verbatim>\<open>heap_file.cpp\<close>)\<close>

record RecordID =
  page_id :: page_id_t
  slot_id :: "16 word"

record HeapFile =
  fsm :: FreeSpaceMap
  first_page_id :: page_id_t
  max_page_id :: page_id_t

definition HeapFile_new :: "FreeSpaceMap \<Rightarrow> page_id_t \<Rightarrow> HeapFile" where
  "HeapFile_new f first = \<lparr>fsm = f, first_page_id = first, max_page_id = first\<rparr>"

definition AllocateNewPage :: "HeapFile \<Rightarrow> BufferPool \<Rightarrow> error + (page_id_t \<times> HeapFile \<times> BufferPool)" where
  "AllocateNewPage h bpm =
     (case NewPage bpm of
        None \<Rightarrow> Inl (RuntimeError ''HeapFile: Failed to allocate new page'')
      | Some (new_page_id, bpm1) \<Rightarrow>
          (case Init (pages bpm1 new_page_id) 4096 of
             Inl e \<Rightarrow> Inl e
           | Inr d \<Rightarrow>
               let bpm2 = WritePage bpm1 new_page_id d;
                   free_space = GetFreeSpace d
               in (case RegisterNewPage (fsm h) bpm2 new_page_id free_space of
                     Inl e \<Rightarrow> Inl e
                   | Inr bpm3 \<Rightarrow>
                       Inr (new_page_id,
                            (if sint new_page_id > sint (max_page_id h)
                             then h\<lparr>max_page_id := new_page_id\<rparr> else h),
                            bpm3))))"

text \<open>
  \<open>HeapFile::InsertRecord\<close>. \<open>record_len\<close> is \<open>static_cast<uint16_t>(data.size())\<close>
  and \<open>total_needed\<close> is \<open>uint16_t\<close>. The last step of a successful insert,
  \<open>UpdateFreeSpace\<close> with the page's \<open>GetFreeSpace\<close>, is \<open>finish_insert\<close>.
\<close>

definition finish_insert ::
  "HeapFile \<Rightarrow> BufferPool \<Rightarrow> page_id_t \<Rightarrow> byte list \<Rightarrow> 16 word \<Rightarrow> error + (RecordID \<times> HeapFile \<times> BufferPool)" where
  "finish_insert h bpm target_page page slot =
     (let bpm1 = WritePage bpm target_page page;
          remaining = GetFreeSpace page
      in case UpdateFreeSpace (fsm h) bpm1 target_page remaining of
           Inl e \<Rightarrow> Inl e
         | Inr bpm2 \<Rightarrow> Inr (\<lparr>page_id = target_page, slot_id = slot\<rparr>, h, bpm2))"

definition HeapFile_InsertRecord ::
  "HeapFile \<Rightarrow> BufferPool \<Rightarrow> BsonDocument \<Rightarrow> error + (RecordID \<times> HeapFile \<times> BufferPool)" where
  "HeapFile_InsertRecord h bpm doc =
     (let data = Serialize doc;
          record_len = (of_nat (length data) :: 16 word);
          total_needed = record_len + 4
      in case FindPageWithSpace (fsm h) bpm total_needed of
           Inl e \<Rightarrow> Inl e
         | Inr found \<Rightarrow>
             (case (if found = INVALID_PAGE_ID then AllocateNewPage h bpm else Inr (found, h, bpm)) of
                Inl e \<Rightarrow> Inl e
              | Inr (target_page, h1, bpm1) \<Rightarrow>
                  (case FetchPage bpm1 target_page of
                     None \<Rightarrow> Inl (RuntimeError ''HeapFile: Failed to fetch page'')
                   | Some page \<Rightarrow>
                       (case InsertRecord page data record_len of
                          Inl e \<Rightarrow> Inl e
                        | Inr (page', slot) \<Rightarrow>
                            if slot \<noteq> - 1 then finish_insert h1 bpm1 target_page page' slot
                            else
                              (case AllocateNewPage h1 bpm1 of
                                 Inl e \<Rightarrow> Inl e
                               | Inr (target_page2, h2, bpm2) \<Rightarrow>
                                   (case FetchPage bpm2 target_page2 of
                                      None \<Rightarrow> Inl (RuntimeError ''HeapFile: Failed to fetch new page'')
                                    | Some page2 \<Rightarrow>
                                        (case InsertRecord page2 data record_len of
                                           Inl e \<Rightarrow> Inl e
                                         | Inr (page2', slot2) \<Rightarrow>
                                             if slot2 = - 1
                                             then Inl (RuntimeError ''HeapFile: Record too large for a single page'')
                                             else finish_insert h2 bpm2 target_page2 page2' slot2)))))))"

definition HeapFile_DeleteRecord :: "HeapFile \<Rightarrow> BufferPool \<Rightarrow> RecordID \<Rightarrow> error + (bool \<times> BufferPool)" where
  "HeapFile_DeleteRecord h bpm rid =
     (case FetchPage bpm (page_id rid) of
        None \<Rightarrow> Inr (False, bpm)
      | Some page \<Rightarrow>
          (case DeleteRecord page (slot_id rid) of
             Inl e \<Rightarrow> Inl e
           | Inr (page', ok) \<Rightarrow>
               if ok then
                 (let bpm1 = WritePage bpm (page_id rid) page';
                      remaining = GetFreeSpace page'
                  in case UpdateFreeSpace (fsm h) bpm1 (page_id rid) remaining of
                       Inl e \<Rightarrow> Inl e
                     | Inr bpm2 \<Rightarrow> Inr (True, bpm2))
               else Inr (False, bpm)))"

definition HeapFile_UpdateRecord ::
  "HeapFile \<Rightarrow> BufferPool \<Rightarrow> RecordID \<Rightarrow> BsonDocument \<Rightarrow> error + (RecordID \<times> HeapFile \<times> BufferPool)" where
  "HeapFile_UpdateRecord h bpm rid doc =
     (let data = Serialize doc;
          record_len = (of_nat (length data) :: 16 word)
      in case FetchPage bpm (page_id rid) of
           None \<Rightarrow> Inl (RuntimeError ''HeapFile: Failed to fetch page for update'')
         | Some page \<Rightarrow>
             (case UpdateRecord page (slot_id rid) data record_len of
                Inl e \<Rightarrow> Inl e
              | Inr (page', ok) \<Rightarrow>
                  if ok then Inr (rid, h, WritePage bpm (page_id rid) page')
                  else
                    (case HeapFile_DeleteRecord h bpm rid of
                       Inl e \<Rightarrow> Inl e
                     | Inr (deleted, bpm1) \<Rightarrow> HeapFile_InsertRecord h bpm1 doc)))"

text \<open>
  An example collection as \<open>Catalog::CreateCollection\<close> leaves it: page 1 is the
  free-space map, page 2 the first heap page, freshly initialised and registered with
  4088 free bytes (category 255).
\<close>

definition example_fsm :: FreeSpaceMap where
  "example_fsm = FreeSpaceMap_new 1 4096"

definition example_heap :: HeapFile where
  "example_heap = HeapFile_new example_fsm 2"

definition example_fsm_page :: "byte list" where
  "example_fsm_page = [0, 0, 255] @ replicate 4093 0"

definition example_pool :: BufferPool where
  "example_pool =
     \<lparr>pages = (\<lambda>p. if p = 1 then example_fsm_page else if p = 2 then empty_page
                    else replicate 4096 0),
      next_page_id = 3, fetchable = (\<lambda>p. True), can_new = True\<rparr>"

section \<open>Write-ahead log (\<^verbatim>\<open>wal.cpp\<close>)\<close>

text \<open>
  \<open>lsn_t\<close> and \<open>txn_id_t\<close> are \<open>int64_t\<close>. \<open>LogRecordType\<close> is an \<open>enum class\<close> over
  \<open>uint8_t\<close>; \<open>Deserialize\<close> casts any byte to it, so a value outside 0..5 is kept as
  \<open>OtherType\<close>.
\<close>

datatype LogRecordType = BEGIN | COMMIT | ABORT | INSERT | DELETE | UPDATE | OtherType byte

definition LogRecordType_of_byte :: "byte \<Rightarrow> LogRecordType" where
  "LogRecordType_of_byte b =
     (if b = 0 then BEGIN else if b = 1 then COMMIT else if b = 2 then ABORT
      else if b = 3 then INSERT else if b = 4 then DELETE else if b = 5 then UPDATE
      else OtherType b)"

fun byte_of_LogRecordType :: "LogRecordType \<Rightarrow> byte" where
  "byte_of_LogRecordType BEGIN = 0"
| "byte_of_LogRecordType COMMIT = 1"
| "byte_of_LogRecordType ABORT = 2"
| "byte_of_LogRecordType INSERT = 3"
| "byte_of_LogRecordType DELETE = 4"
| "byte_of_LogRecordType UPDATE = 5"
| "byte_of_LogRecordType (OtherType b) = b"

record LogRecord =
  lsn :: "64 word"
  txn_id :: "64 word"
  prev_lsn :: "64 word"
  rec_type :: LogRecordType
  log_page_id :: page_id_t
  log_slot_id :: "16 word"
  before_image :: "byte list"
  after_image :: "byte list"

definition LogRecord_Serialize :: "LogRecord \<Rightarrow> byte list" where
  "LogRecord_Serialize r =
     (let body = le64 (lsn r) @ le64 (txn_id r) @ le64 (prev_lsn r)
                 @ [byte_of_LogRecordType (rec_type r)]
                 @ le32 (log_page_id r) @ le16 (log_slot_id r)
                 @ le32 (of_nat (length (before_image r))) @ before_image r
                 @ le32 (of_nat (length (after_image r))) @ after_image r
      in le32 (of_nat (4 + length body)) @ body)"

text \<open>
  \<open>memcpy(&x, data + offset, n)\<close> and \<open>assign(data + offset, data + offset + n)\<close> on the
  log buffer of \<open>size\<close> bytes: the source does not compare \<open>offset + n\<close> with \<open>size\<close>,
  so a read past the end is undefined behaviour.
\<close>

definition read_bytes :: "byte list \<Rightarrow> nat \<Rightarrow> nat \<Rightarrow> error + byte list" where
  "read_bytes data offset n =
     (if offset + n > length data then Inl UndefinedBehaviour
      else Inr (take n (drop offset data)))"

definition err_bind :: "error + 'a \<Rightarrow> ('a \<Rightarrow> error + 'b) \<Rightarrow> error + 'b" where
  "err_bind m f = (case m of Inl e \<Rightarrow> Inl e | Inr x \<Rightarrow> f x)"

text \<open>\<open>LogRecord::Deserialize(data, size, offset)\<close>: the record and the new offset.
  Only the four bytes of \<open>total_size\<close> are checked against \<open>size\<close>; \<open>total_size\<close> itself is
  read and not used.\<close>

definition LogRecord_Deserialize :: "byte list \<Rightarrow> nat \<Rightarrow> error + (LogRecord \<times> nat)" where
  "LogRecord_Deserialize data offset =
     (if offset + 4 > length data then Inl (RuntimeError ''WAL: Truncated log record (size)'')
      else
        err_bind (read_bytes data (offset + 4) 8) (\<lambda>b_lsn.
        err_bind (read_bytes data (offset + 12) 8) (\<lambda>b_txn.
        err_bind (read_bytes data (offset + 20) 8) (\<lambda>b_prev.
        err_bind (read_bytes data (offset + 28) 1) (\<lambda>b_type.
        err_bind (read_bytes data (offset + 29) 4) (\<lambda>b_page.
        err_bind (read_bytes data (offset + 33) 2) (\<lambda>b_slot.
        err_bind (read_bytes data (offset + 35) 4) (\<lambda>b_before_len.
        let before_len = unat (le_word b_before_len :: 32 word) in
        err_bind (read_bytes data (offset + 39) before_len) (\<lambda>b_before.
        err_bind (read_bytes data (offset + 39 + before_len) 4) (\<lambda>b_after_len.
        let after_len = unat (le_word b_after_len :: 32 word) in
        err_bind (read_bytes data (offset + 43 + before_len) after_len) (\<lambda>b_after.
        Inr (\<lparr>lsn = le_word b_lsn, txn_id = le_word b_txn, prev_lsn = le_word b_prev,
              rec_type = LogRecordType_of_byte (hd b_type),
              log_page_id = le_word b_page, log_slot_id = le_word b_slot,
              before_image = b_before, after_image = b_after\<rparr>,
             offset + 43 + before_len + after_len))))))))))))"

lemma err_bind_Inr: "err_bind m f = Inr y \<longleftrightarrow> (\<exists>x. m = Inr x \<and> f x = Inr y)"
  by (cases m) (simp_all add: err_bind_def)

lemma read_bytes_Inr:
  "read_bytes d off n = Inr bs \<longleftrightarrow> off + n \<le> length d \<and> bs = take n (drop off d)"
  by (auto simp: read_bytes_def)

lemma LogRecord_Deserialize_advances:
  "LogRecord_Deserialize data offset = Inr (r, offset') \<Longrightarrow> offset < offset' \<and> offset' \<le> length data"
  by (auto simp: LogRecord_Deserialize_def err_bind_Inr read_bytes_Inr Let_def split: if_splits)

text \<open>
  The loop of \<open>WAL::ReadAllRecords\<close> over the file's bytes: \<open>catch (...)\<close> ends the scan
  at an exception; undefined behaviour is not an exception.
\<close>

function ReadAllRecords_loop :: "byte list \<Rightarrow> nat \<Rightarrow> LogRecord list \<Rightarrow> error + LogRecord list" where
  "ReadAllRecords_loop data offset records =
     (if offset < length data then
        (case LogRecord_Deserialize data offset of
           Inl (RuntimeError m) \<Rightarrow> Inr records
         | Inl UndefinedBehaviour \<Rightarrow> Inl UndefinedBehaviour
         | Inr (r, offset') \<Rightarrow> ReadAllRecords_loop data offset' (records @ [r]))
      else Inr records)"
  by pat_completeness auto
termination
  by (relation "measure (\<lambda>(data, offset, records). length data - offset)")
    (auto dest: LogRecord_Deserialize_advances)

declare ReadAllRecords_loop.simps [simp del]

definition ReadAllRecords :: "byte list \<Rightarrow> error + LogRecord list" where
  "ReadAllRecords file = ReadAllRecords_loop file 0 []"

definition example_record :: LogRecord where
  "example_record = \<lparr>lsn = 1, txn_id = 100, prev_lsn = 0, rec_type = INSERT,
     log_page_id = 5, log_slot_id = 0, before_image = [], after_image = [1, 2, 3]\<rparr>"


section \<open>Recovery manager (\<^verbatim>\<open>recovery_manager.cpp\<close>)\<close>


















section \<open>Lock manager (\<^verbatim>\<open>lock_manager.cpp\<close>)\<close>

datatype LockMode = SHARED | EXCLUSIVE

record LockRequest =
  req_txn_id :: "64 word"
  req_mode :: LockMode
  granted :: bool

type_synonym LockKey = "page_id_t \<times> 16 word"

text \<open>
  \<open>lock_table_\<close> maps a key to its request queue (the condition variable is the
  waiting itself and has no state of its own); \<open>txn_locks_\<close> maps a transaction to the
  set of keys it was granted.
\<close>

record LockManager =
  lock_table :: "LockKey \<rightharpoonup> LockRequest list"
  txn_locks :: "64 word \<rightharpoonup> LockKey set"

definition LockManager_new :: LockManager where
  "LockManager_new = \<lparr>lock_table = Map.empty, txn_locks = Map.empty\<rparr>"

fun CanGrantLock :: "LockRequest list \<Rightarrow> LockMode \<Rightarrow> bool" where
  "CanGrantLock [] m = True"
| "CanGrantLock (req # queue) m =
     (if \<not> granted req then CanGrantLock queue m
      else if m = EXCLUSIVE then False
      else if req_mode req = EXCLUSIVE then False
      else CanGrantLock queue m)"

text \<open>\<open>lock_table_[key]\<close>: the queue of the key, an empty one when the key is new.\<close>

definition queue_at :: "LockManager \<Rightarrow> LockKey \<Rightarrow> LockRequest list" where
  "queue_at lm key = (case lock_table lm key of None \<Rightarrow> [] | Some q \<Rightarrow> q)"

definition others_granted :: "LockRequest list \<Rightarrow> 64 word \<Rightarrow> bool" where
  "others_granted queue txn = list_ex (\<lambda>req. req_txn_id req \<noteq> txn \<and> granted req) queue"

text \<open>\<open>it->granted = true; txn_locks_[txn_id].insert(key)\<close> for the request at position \<open>i\<close>.\<close>

definition grant_at :: "LockManager \<Rightarrow> LockKey \<Rightarrow> nat \<Rightarrow> LockManager" where
  "grant_at lm key i =
     (let queue = queue_at lm key; txn = req_txn_id (queue ! i)
      in lm\<lparr>lock_table := (lock_table lm)(key \<mapsto> queue[i := (queue ! i)\<lparr>granted := True\<rparr>]),
            txn_locks := (txn_locks lm)(txn \<mapsto>
               insert key (case txn_locks lm txn of None \<Rightarrow> {} | Some ks \<Rightarrow> ks))\<rparr>)"

text \<open>
  The condition a waiting request re-checks each time it wakes, by the mode it asked
  for: \<open>CanGrantLock(queue, SHARED)\<close> in \<open>LockShared\<close>, "no other transaction holds a
  granted request" in \<open>LockExclusive\<close>.
\<close>

definition may_grant :: "LockRequest list \<Rightarrow> nat \<Rightarrow> bool" where
  "may_grant queue i \<longleftrightarrow>
     i < length queue \<and> \<not> granted (queue ! i) \<and>
     (case req_mode (queue ! i) of
        SHARED \<Rightarrow> CanGrantLock queue SHARED
      | EXCLUSIVE \<Rightarrow> \<not> others_granted queue (req_txn_id (queue ! i)))"

text \<open>
  The manager's latch makes every call atomic up to its \<open>cv.wait\<close>. A call is the step
  from its entry to its return or its first wait; a waiting thread that wakes and finds
  its condition true takes the step \<open>Wake\<close> (for the request at a queue position) or
  \<open>WakeUpgrade\<close>; one that finds it false changes nothing.
\<close>

definition LockShared :: "LockManager \<Rightarrow> 64 word \<Rightarrow> LockKey \<Rightarrow> LockManager" where
  "LockShared lm txn key =
     (let queue = queue_at lm key in
      if list_ex (\<lambda>req. req_txn_id req = txn \<and> granted req) queue
      then lm\<lparr>lock_table := (lock_table lm)(key \<mapsto> queue)\<rparr>
      else
        let lm1 = lm\<lparr>lock_table := (lock_table lm)(key \<mapsto>
                       queue @ [\<lparr>req_txn_id = txn, req_mode = SHARED, granted = False\<rparr>])\<rparr>
        in if may_grant (queue_at lm1 key) (length queue) then grant_at lm1 key (length queue)
           else lm1)"

definition LockExclusive :: "LockManager \<Rightarrow> 64 word \<Rightarrow> LockKey \<Rightarrow> LockManager" where
  "LockExclusive lm txn key =
     (let queue = queue_at lm key in
      if list_ex (\<lambda>req. req_txn_id req = txn \<and> granted req \<and> req_mode req = EXCLUSIVE) queue
      then lm\<lparr>lock_table := (lock_table lm)(key \<mapsto> queue)\<rparr>
      else
        let lm1 = lm\<lparr>lock_table := (lock_table lm)(key \<mapsto>
                       queue @ [\<lparr>req_txn_id = txn, req_mode = EXCLUSIVE, granted = False\<rparr>])\<rparr>
        in if may_grant (queue_at lm1 key) (length queue) then grant_at lm1 key (length queue)
           else lm1)"

definition Wake :: "LockManager \<Rightarrow> LockKey \<Rightarrow> nat \<Rightarrow> LockManager" where
  "Wake lm key i = (if may_grant (queue_at lm key) i then grant_at lm key i else lm)"

text \<open>\<open>it->mode = LockMode::EXCLUSIVE\<close> once no other transaction holds a granted
  request; \<open>i\<close> is the position \<open>find_if\<close> returned (a granted request of the
  transaction).\<close>

definition upgrade_at :: "LockManager \<Rightarrow> 64 word \<Rightarrow> LockKey \<Rightarrow> nat \<Rightarrow> LockManager" where
  "upgrade_at lm txn key i =
     (let queue = queue_at lm key in
      if i < length queue \<and> req_txn_id (queue ! i) = txn \<and> granted (queue ! i)
           \<and> \<not> others_granted queue txn
      then lm\<lparr>lock_table := (lock_table lm)(key \<mapsto> queue[i := (queue ! i)\<lparr>req_mode := EXCLUSIVE\<rparr>])\<rparr>
      else lm)"

fun find_index_of :: "('a \<Rightarrow> bool) \<Rightarrow> 'a list \<Rightarrow> nat option" where
  "find_index_of P [] = None"
| "find_index_of P (x # xs) =
     (if P x then Some 0 else map_option Suc (find_index_of P xs))"

definition LockUpgrade :: "LockManager \<Rightarrow> 64 word \<Rightarrow> LockKey \<Rightarrow> LockManager" where
  "LockUpgrade lm txn key =
     (case lock_table lm key of
        None \<Rightarrow> lm
      | Some queue \<Rightarrow>
          (case find_index_of (\<lambda>r. req_txn_id r = txn \<and> granted r) queue of
             None \<Rightarrow> lm
           | Some i \<Rightarrow> if req_mode (queue ! i) = EXCLUSIVE then lm else upgrade_at lm txn key i))"

definition UnlockAll :: "LockManager \<Rightarrow> 64 word \<Rightarrow> LockManager" where
  "UnlockAll lm txn =
     (case txn_locks lm txn of
        None \<Rightarrow> lm
      | Some keys \<Rightarrow>
          lm\<lparr>lock_table := (\<lambda>key.
                 if key \<in> keys then
                   (case lock_table lm key of
                      None \<Rightarrow> None
                    | Some queue \<Rightarrow>
                        (let queue' = filter (\<lambda>r. req_txn_id r \<noteq> txn) queue
                         in if queue' = [] then None else Some queue'))
                 else lock_table lm key),
             txn_locks := (txn_locks lm)(txn := None)\<rparr>)"

datatype lock_event =
    CallLockShared "64 word" LockKey
  | CallLockExclusive "64 word" LockKey
  | CallLockUpgrade "64 word" LockKey
  | CallUnlockAll "64 word"
  | WakeRequest LockKey nat
  | WakeUpgrade "64 word" LockKey nat

fun lock_step :: "LockManager \<Rightarrow> lock_event \<Rightarrow> LockManager" where
  "lock_step lm (CallLockShared txn key) = LockShared lm txn key"
| "lock_step lm (CallLockExclusive txn key) = LockExclusive lm txn key"
| "lock_step lm (CallLockUpgrade txn key) = LockUpgrade lm txn key"
| "lock_step lm (CallUnlockAll txn) = UnlockAll lm txn"
| "lock_step lm (WakeRequest key i) = Wake lm key i"
| "lock_step lm (WakeUpgrade txn key i) = upgrade_at lm txn key i"

definition lock_run :: "lock_event list \<Rightarrow> LockManager" where
  "lock_run evs = foldl lock_step LockManager_new evs"

text \<open>
  The claimed invariant of one queue, in the spec's words: at most one granted
  EXCLUSIVE, and never a granted SHARED together with a granted EXCLUSIVE.
\<close>

definition spec_queue_invariant :: "LockRequest list \<Rightarrow> bool" where
  "spec_queue_invariant queue \<longleftrightarrow>
     (let x = length (filter (\<lambda>r. granted r \<and> req_mode r = EXCLUSIVE) queue);
          s = length (filter (\<lambda>r. granted r \<and> req_mode r = SHARED) queue)
      in x \<le> 1 \<and> (x = 0 \<or> s = 0))"

text \<open>
  What the code keeps: when a transaction holds a granted EXCLUSIVE request on a
  resource, every granted request on that resource is its own.
\<close>

definition queue_invariant :: "LockRequest list \<Rightarrow> bool" where
  "queue_invariant queue \<longleftrightarrow>
     list_all (\<lambda>r1. list_all (\<lambda>r2.
        \<not> (granted r1 \<and> granted r2 \<and> req_mode r1 = EXCLUSIVE) \<or> req_txn_id r1 = req_txn_id r2)
        queue) queue"

definition lock_invariant :: "LockManager \<Rightarrow> bool" where
  "lock_invariant lm \<longleftrightarrow> (\<forall>key. queue_invariant (queue_at lm key))"

section \<open>B+ tree (\<^verbatim>\<open>bptree.cpp\<close>)\<close>

text \<open>
  A node occupies one page. \<open>ReadLeafNode\<close>/\<open>WriteLeafNode\<close> and
  \<open>ReadInternalNode\<close>/\<open>WriteInternalNode\<close> decode a page into the vectors
  \<open>keys\<close>, \<open>rids\<close> (or \<open>children\<close>) and encode them back; every operation of the tree
  works on the decoded vectors and rewrites the whole page after a \<open>memset\<close>. The
  model keeps each page of the index decoded, as the node that \<open>Read...Node\<close> returns
  for it; what a write leaves in a page is \<open>written_leaf_node\<close> and
  \<open>written_internal_node\<close> below. The pool is the same contract as for the heap file, over
  nodes. A key is a \<open>std::string\<close>, compared as \<open>std::string\<close> compares:
  lexicographically by unsigned bytes.
\<close>

datatype BTreeNode =
    LeafNode "byte list list" "RecordID list" page_id_t
  | InternalNode "byte list list" "page_id_t list"

record NodePool =
  nodes :: "page_id_t \<Rightarrow> BTreeNode"
  node_next_page_id :: page_id_t
  node_fetchable :: "page_id_t \<Rightarrow> bool"
  node_can_new :: bool

definition FetchNode :: "NodePool \<Rightarrow> page_id_t \<Rightarrow> BTreeNode option" where
  "FetchNode bpm pid = (if node_fetchable bpm pid then Some (nodes bpm pid) else None)"

text \<open>
  The encoding of a node: the header of \<open>BTREE_NODE_HEADER_SIZE = 7\<close> bytes, then for a
  leaf one entry \<open>key_len (2) | key | page_id (4) | slot_id (2)\<close> per key, for an internal
  node \<open>child0 (4)\<close> and \<open>key_len (2) | key | child (4)\<close> per key. \<open>key_len\<close> is
  \<open>static_cast<uint16_t>(keys[i].size())\<close>, and \<open>key_len\<close> bytes of the key are copied.
\<close>

definition key_len :: "byte list \<Rightarrow> nat" where
  "key_len key = length key mod 65536"

definition leaf_node_size :: "byte list list \<Rightarrow> nat" where
  "leaf_node_size keys = 7 + sum_list (map (\<lambda>k. 2 + key_len k + 4 + 2) keys)"

definition internal_node_size :: "byte list list \<Rightarrow> nat" where
  "internal_node_size keys = 7 + 4 + sum_list (map (\<lambda>k. 2 + key_len k + 4) keys)"

text \<open>
  \<open>WriteNodeHeader\<close>, \<open>WriteLeafNode\<close> and \<open>WriteInternalNode\<close> on the bytes of a frame.
  Neither function compares an offset with the size of the frame, so an encoding longer
  than the frame is written past its end, which is undefined behaviour, as are
  \<open>rids[i]\<close>, \<open>children[0]\<close> and \<open>children[i + 1]\<close> outside their vector.
\<close>

definition node_header_bytes :: "byte \<Rightarrow> 16 word \<Rightarrow> page_id_t \<Rightarrow> byte list" where
  "node_header_bytes is_leaf num_keys next_leaf = is_leaf # le16 num_keys @ le32 next_leaf"

definition leaf_entry :: "byte list \<Rightarrow> RecordID \<Rightarrow> byte list" where
  "leaf_entry k r = le16 (of_nat (length k)) @ take (key_len k) k @ le32 (page_id r) @ le16 (slot_id r)"

definition leaf_entry_bytes :: "byte list list \<Rightarrow> RecordID list \<Rightarrow> byte list" where
  "leaf_entry_bytes keys rids = concat (map2 leaf_entry keys rids)"

definition internal_entry :: "byte list \<Rightarrow> page_id_t \<Rightarrow> byte list" where
  "internal_entry k c = le16 (of_nat (length k)) @ take (key_len k) k @ le32 c"

definition internal_entry_bytes :: "byte list list \<Rightarrow> page_id_t list \<Rightarrow> byte list" where
  "internal_entry_bytes keys children = concat (map2 internal_entry keys children)"

definition WriteLeafNode :: "byte list \<Rightarrow> byte list list \<Rightarrow> RecordID list \<Rightarrow> page_id_t \<Rightarrow> error + byte list" where
  "WriteLeafNode page_data keys rids next_leaf =
     (let bytes = node_header_bytes 1 (of_nat (length keys)) next_leaf @ leaf_entry_bytes keys rids
      in if length rids < length keys \<or> length page_data < length bytes then Inl UndefinedBehaviour
         else Inr (memcpy page_data 0 bytes))"

definition WriteInternalNode :: "byte list \<Rightarrow> byte list list \<Rightarrow> page_id_t list \<Rightarrow> error + byte list" where
  "WriteInternalNode page_data keys children =
     (let bytes = node_header_bytes 0 (of_nat (length keys)) INVALID_PAGE_ID @ le32 (hd children) @
                  internal_entry_bytes keys (tl children)
      in if length children \<le> length keys \<or> length page_data < length bytes then Inl UndefinedBehaviour
         else Inr (memcpy page_data 0 bytes))"

text \<open>
  \<open>ReadNodeHeader\<close>, \<open>ReadLeafNode\<close> and \<open>ReadInternalNode\<close>: the loops read \<open>num_keys\<close>
  entries from offset 7 (after the first child, 11) and check no offset either.
  \<open>decode_node\<close> is how the tree code reads a page: the header, then the reader that
  \<open>is_leaf\<close> selects.
\<close>

definition ReadNodeHeader :: "byte list \<Rightarrow> error + (byte \<times> 16 word \<times> page_id_t)" where
  "ReadNodeHeader page_data =
     (if length page_data < 7 then Inl UndefinedBehaviour
      else Inr (page_data ! 0, le_word (take 2 (drop 1 page_data)), le_word (take 4 (drop 3 page_data))))"

primrec read_leaf_entries :: "byte list \<Rightarrow> nat \<Rightarrow> nat \<Rightarrow> error + (byte list list \<times> RecordID list)" where
  "read_leaf_entries page_data 0 offset = Inr ([], [])"
| "read_leaf_entries page_data (Suc n) offset =
     (if offset + 2 > length page_data then Inl UndefinedBehaviour
      else
        let kl = unat (le_word (take 2 (drop offset page_data)) :: 16 word) in
        if offset + 2 + kl + 6 > length page_data then Inl UndefinedBehaviour
        else
          let key = take kl (drop (offset + 2) page_data);
              rid = \<lparr>page_id = le_word (take 4 (drop (offset + 2 + kl) page_data)),
                     slot_id = le_word (take 2 (drop (offset + 2 + kl + 4) page_data))\<rparr>
          in case read_leaf_entries page_data n (offset + 2 + kl + 6) of
               Inl e \<Rightarrow> Inl e
             | Inr (keys, rids) \<Rightarrow> Inr (key # keys, rid # rids))"

primrec read_internal_entries :: "byte list \<Rightarrow> nat \<Rightarrow> nat \<Rightarrow> error + (byte list list \<times> page_id_t list)" where
  "read_internal_entries page_data 0 offset = Inr ([], [])"
| "read_internal_entries page_data (Suc n) offset =
     (if offset + 2 > length page_data then Inl UndefinedBehaviour
      else
        let kl = unat (le_word (take 2 (drop offset page_data)) :: 16 word) in
        if offset + 2 + kl + 4 > length page_data then Inl UndefinedBehaviour
        else
          let key = take kl (drop (offset + 2) page_data);
              child = le_word (take 4 (drop (offset + 2 + kl) page_data))
          in case read_internal_entries page_data n (offset + 2 + kl + 4) of
               Inl e \<Rightarrow> Inl e
             | Inr (keys, children) \<Rightarrow> Inr (key # keys, child # children))"

definition ReadLeafNode :: "byte list \<Rightarrow> error + (byte list list \<times> RecordID list)" where
  "ReadLeafNode page_data =
     (case ReadNodeHeader page_data of
        Inl e \<Rightarrow> Inl e
      | Inr (is_leaf, num_keys, next_leaf) \<Rightarrow> read_leaf_entries page_data (unat num_keys) 7)"

definition ReadInternalNode :: "byte list \<Rightarrow> error + (byte list list \<times> page_id_t list)" where
  "ReadInternalNode page_data =
     (case ReadNodeHeader page_data of
        Inl e \<Rightarrow> Inl e
      | Inr (is_leaf, num_keys, next_leaf) \<Rightarrow>
          if length page_data < 11 then Inl UndefinedBehaviour
          else
            (case read_internal_entries page_data (unat num_keys) 11 of
               Inl e \<Rightarrow> Inl e
             | Inr (keys, children) \<Rightarrow>
                 Inr (keys, le_word (take 4 (drop 7 page_data)) # children)))"

definition decode_node :: "byte list \<Rightarrow> error + BTreeNode" where
  "decode_node page_data =
     (case ReadNodeHeader page_data of
        Inl e \<Rightarrow> Inl e
      | Inr (is_leaf, num_keys, next_leaf) \<Rightarrow>
          if is_leaf \<noteq> 0 then
            (case ReadLeafNode page_data of
               Inl e \<Rightarrow> Inl e
             | Inr (keys, rids) \<Rightarrow> Inr (LeafNode keys rids next_leaf))
          else
            (case ReadInternalNode page_data of
               Inl e \<Rightarrow> Inl e
             | Inr (keys, children) \<Rightarrow> Inr (InternalNode keys children)))"

text \<open>
  The node that a page decodes to after \<open>memset(page, 0, 4096)\<close> and \<open>WriteLeafNode\<close> or
  \<open>WriteInternalNode\<close>, which is how the model keeps it: the keys cut to their
  \<open>uint16_t\<close> length, as many rids as keys and one child more than keys; undefined
  where the write is. That this is \<open>decode_node\<close> of the bytes written is proved below
  (\<open>written_leaf_node_decode\<close>, \<open>written_internal_node_decode\<close>).
\<close>

definition written_leaf_node :: "byte list list \<Rightarrow> RecordID list \<Rightarrow> page_id_t \<Rightarrow> error + BTreeNode" where
  "written_leaf_node keys rids next_leaf =
     (if length rids < length keys \<or> PAGE_SIZE < leaf_node_size keys then Inl UndefinedBehaviour
      else Inr (LeafNode (map (\<lambda>k. take (key_len k) k) keys) (take (length keys) rids) next_leaf))"

definition written_internal_node :: "byte list list \<Rightarrow> page_id_t list \<Rightarrow> error + BTreeNode" where
  "written_internal_node keys children =
     (if length children \<le> length keys \<or> PAGE_SIZE < internal_node_size keys
      then Inl UndefinedBehaviour
      else Inr (InternalNode (map (\<lambda>k. take (key_len k) k) keys) (take (length keys + 1) children)))"

text \<open>
  \<open>memset(page, 0, 4096); Write...Node(page, ...); UnpinPage(pid, true)\<close> on a page the
  caller holds: \<open>written\<close> is the node the page decodes to after the \<open>Write...Node\<close> call.
\<close>

definition WriteNode :: "NodePool \<Rightarrow> page_id_t \<Rightarrow> error + BTreeNode \<Rightarrow> error + NodePool" where
  "WriteNode bpm pid written =
     (case written of
        Inl e \<Rightarrow> Inl e
      | Inr node \<Rightarrow> Inr (bpm\<lparr>nodes := (nodes bpm)(pid := node)\<rparr>))"

text \<open>\<open>NewPage\<close> followed by the \<open>memset\<close> and the \<open>Write...Node\<close> call of the tree code:
  \<open>None\<close> when \<open>NewPage\<close> returns \<open>nullptr\<close>, otherwise the fresh page id and the pool
  in which that page holds the node.\<close>

definition NewNode :: "NodePool \<Rightarrow> error + BTreeNode \<Rightarrow> (error + (page_id_t \<times> NodePool)) option" where
  "NewNode bpm written =
     (if node_can_new bpm
      then Some (case written of
                   Inl e \<Rightarrow> Inl e
                 | Inr node \<Rightarrow>
                     Inr (node_next_page_id bpm,
                          bpm\<lparr>nodes := (nodes bpm)(node_next_page_id bpm := node),
                              node_next_page_id := node_next_page_id bpm + 1\<rparr>))
      else None)"

record BPlusTree =
  root_page_id :: page_id_t
  max_keys :: "16 word"

record InsertResult =
  did_split :: bool
  split_key :: "byte list"
  new_page_id :: page_id_t

text \<open>The child to descend into: \<open>while (idx < keys.size() && key >= keys[idx]) idx++\<close>.\<close>

fun child_index :: "byte list list \<Rightarrow> byte list \<Rightarrow> nat" where
  "child_index [] key = 0"
| "child_index (k # ks) key = (if key \<ge> k then Suc (child_index ks key) else 0)"

text \<open>
  \<open>std::lower_bound(keys.begin(), keys.end(), key)\<close>. The C++ standard requires the
  range to be partitioned with respect to \<open>k < key\<close> (every element less than the key
  before every element that is not), and then the result is the first position whose
  element is not less than the key; on a range that is not partitioned the call has
  undefined behaviour.
\<close>

definition lower_bound :: "byte list list \<Rightarrow> byte list \<Rightarrow> error + nat" where
  "lower_bound keys key =
     (let pos = length (takeWhile (\<lambda>k. k < key) keys) in
      if list_all (\<lambda>k. key \<le> k) (drop pos keys) then Inr pos else Inl UndefinedBehaviour)"

text \<open>\<open>while (it != keys.end() && *it == key) { ++it; ++pos; }\<close>\<close>

definition skip_equal :: "byte list list \<Rightarrow> byte list \<Rightarrow> nat \<Rightarrow> nat" where
  "skip_equal keys key pos = pos + length (takeWhile (\<lambda>k. k = key) (drop pos keys))"

definition insert_pos :: "byte list list \<Rightarrow> byte list \<Rightarrow> error + nat" where
  "insert_pos keys key =
     (case lower_bound keys key of
        Inl e \<Rightarrow> Inl e
      | Inr pos \<Rightarrow> Inr (skip_equal keys key pos))"

definition insert_at :: "nat \<Rightarrow> 'a \<Rightarrow> 'a list \<Rightarrow> 'a list" where
  "insert_at pos x xs = take pos xs @ x # drop pos xs"

definition no_split :: InsertResult where
  "no_split = \<lparr>did_split = False, split_key = [], new_page_id = INVALID_PAGE_ID\<rparr>"

text \<open>
  \<open>FindLeaf\<close>: the descent from a page to a leaf. The loop has no bound of its own (it
  ends when it meets a leaf or a page it cannot fetch), so not returning is the value
  \<open>None\<close>. \<open>children[idx]\<close> outside the vector is undefined behaviour.
\<close>

partial_function (option) FindLeaf_from :: "NodePool \<Rightarrow> byte list \<Rightarrow> page_id_t \<Rightarrow> (error + page_id_t) option" where
  "FindLeaf_from bpm key current =
     (case FetchNode bpm current of
        None \<Rightarrow> Some (Inr INVALID_PAGE_ID)
      | Some node \<Rightarrow>
          (case node of
             LeafNode keys rids nxt \<Rightarrow> Some (Inr current)
           | InternalNode keys children \<Rightarrow>
               if child_index keys key < length children
               then FindLeaf_from bpm key (children ! child_index keys key)
               else Some (Inl UndefinedBehaviour)))"

definition FindLeaf :: "BPlusTree \<Rightarrow> NodePool \<Rightarrow> byte list \<Rightarrow> (error + page_id_t) option" where
  "FindLeaf tree bpm key = FindLeaf_from bpm key (root_page_id tree)"

text \<open>The leaf part of \<open>InsertInternal\<close>, for a page that holds the leaf
  \<open>(keys, rids, next_leaf)\<close>.\<close>

definition insert_into_leaf ::
  "BPlusTree \<Rightarrow> NodePool \<Rightarrow> page_id_t \<Rightarrow> byte list list \<Rightarrow> RecordID list \<Rightarrow> page_id_t \<Rightarrow>
   byte list \<Rightarrow> RecordID \<Rightarrow> error + (InsertResult \<times> NodePool)" where
  "insert_into_leaf tree bpm node_page_id keys rids next_leaf key rid =
     (case insert_pos keys key of
        Inl e \<Rightarrow> Inl e
      | Inr pos \<Rightarrow>
          if pos > length rids then Inl UndefinedBehaviour
          else
            let keys' = insert_at pos key keys;
                rids' = insert_at pos rid rids
            in if length keys' \<le> unat (max_keys tree)
               then (case WriteNode bpm node_page_id (written_leaf_node keys' rids' next_leaf) of
                       Inl e \<Rightarrow> Inl e
                     | Inr bpm1 \<Rightarrow> Inr (no_split, bpm1))
               else
                 let mid = length keys' div 2;
                     left_keys = take mid keys'; left_rids = take mid rids';
                     right_keys = drop mid keys'; right_rids = drop mid rids'
                 in (case NewNode bpm (written_leaf_node right_keys right_rids next_leaf) of
                       None \<Rightarrow> Inl (RuntimeError ''BPlusTree: Failed to allocate new leaf page'')
                     | Some (Inl e) \<Rightarrow> Inl e
                     | Some (Inr (new_id, bpm1)) \<Rightarrow>
                         (case WriteNode bpm1 node_page_id (written_leaf_node left_keys left_rids new_id) of
                            Inl e \<Rightarrow> Inl e
                          | Inr bpm2 \<Rightarrow>
                              Inr (\<lparr>did_split = True, split_key = hd right_keys,
                                     new_page_id = new_id\<rparr>, bpm2))))"

text \<open>The internal part after the recursive call has reported a split of child \<open>idx\<close>.
  The code does not check the second \<open>FetchPage\<close> of the node's own page.\<close>

definition insert_into_internal ::
  "BPlusTree \<Rightarrow> NodePool \<Rightarrow> page_id_t \<Rightarrow> byte list list \<Rightarrow> page_id_t list \<Rightarrow> nat \<Rightarrow>
   InsertResult \<Rightarrow> error + (InsertResult \<times> NodePool)" where
  "insert_into_internal tree bpm node_page_id keys children idx child_result =
     (let keys' = insert_at idx (split_key child_result) keys;
          children' = insert_at (idx + 1) (new_page_id child_result) children
      in if length keys' \<le> unat (max_keys tree)
         then (if node_fetchable bpm node_page_id
               then (case WriteNode bpm node_page_id (written_internal_node keys' children') of
                       Inl e \<Rightarrow> Inl e
                     | Inr bpm1 \<Rightarrow> Inr (no_split, bpm1))
               else Inl UndefinedBehaviour)
         else
           let mid = length keys' div 2;
               push_up_key = keys' ! mid;
               left_keys = take mid keys'; left_children = take (mid + 1) children';
               right_keys = drop (mid + 1) keys'; right_children = drop (mid + 1) children'
           in (case NewNode bpm (written_internal_node right_keys right_children) of
                 None \<Rightarrow> Inl (RuntimeError ''BPlusTree: Failed to allocate new internal page'')
               | Some (Inl e) \<Rightarrow> Inl e
               | Some (Inr (new_id, bpm1)) \<Rightarrow>
                   if node_fetchable bpm1 node_page_id
                   then (case WriteNode bpm1 node_page_id (written_internal_node left_keys left_children) of
                           Inl e \<Rightarrow> Inl e
                         | Inr bpm2 \<Rightarrow>
                             Inr (\<lparr>did_split = True, split_key = push_up_key,
                                    new_page_id = new_id\<rparr>, bpm2))
                   else Inl UndefinedBehaviour))"

partial_function (option) InsertInternal ::
  "BPlusTree \<Rightarrow> NodePool \<Rightarrow> page_id_t \<Rightarrow> byte list \<Rightarrow> RecordID \<Rightarrow> (error + (InsertResult \<times> NodePool)) option" where
  "InsertInternal tree bpm node_page_id key rid =
     (case FetchNode bpm node_page_id of
        None \<Rightarrow> Some (Inl (RuntimeError ''BPlusTree: Failed to fetch page''))
      | Some node \<Rightarrow>
          (case node of
             LeafNode keys rids next_leaf \<Rightarrow>
               Some (insert_into_leaf tree bpm node_page_id keys rids next_leaf key rid)
           | InternalNode keys children \<Rightarrow>
               if child_index keys key \<ge> length children then Some (Inl UndefinedBehaviour)
               else
                 Option.bind (InsertInternal tree bpm (children ! child_index keys key) key rid)
                   (\<lambda>r. case r of
                      Inl e \<Rightarrow> Some (Inl e)
                    | Inr (child_result, bpm1) \<Rightarrow>
                        if \<not> did_split child_result then Some (Inr (no_split, bpm1))
                        else Some (insert_into_internal tree bpm1 node_page_id keys children
                                     (child_index keys key) child_result))))"

definition BPlusTree_Insert ::
  "BPlusTree \<Rightarrow> NodePool \<Rightarrow> byte list \<Rightarrow> RecordID \<Rightarrow> (error + (BPlusTree \<times> NodePool)) option" where
  "BPlusTree_Insert tree bpm key rid =
     Option.bind (InsertInternal tree bpm (root_page_id tree) key rid)
       (\<lambda>r. case r of
          Inl e \<Rightarrow> Some (Inl e)
        | Inr (result, bpm1) \<Rightarrow>
            if did_split result then
              (case NewNode bpm1 (written_internal_node [split_key result]
                                     [root_page_id tree, new_page_id result]) of
                 None \<Rightarrow> Some (Inl (RuntimeError ''BPlusTree: Failed to allocate new root page''))
               | Some (Inl e) \<Rightarrow> Some (Inl e)
               | Some (Inr (new_root_id, bpm2)) \<Rightarrow>
                   Some (Inr (tree\<lparr>root_page_id := new_root_id\<rparr>, bpm2)))
            else Some (Inr (tree, bpm1)))"

text \<open>
  The inner \<open>for\<close> loop of \<open>RangeScan\<close> over one leaf: the results so far and whether
  the scan has passed \<open>hi_key\<close> (the early \<open>return\<close>). \<open>rids\<close> is the rest of the
  rid vector from the current index on; \<open>rids[i]\<close> outside it is undefined behaviour.
\<close>

fun scan_leaf ::
  "byte list list \<Rightarrow> RecordID list \<Rightarrow> byte list \<Rightarrow> byte list \<Rightarrow> (byte list \<times> RecordID) list \<Rightarrow>
   error + ((byte list \<times> RecordID) list \<times> bool)" where
  "scan_leaf [] rids lo hi results = Inr (results, False)"
| "scan_leaf (k # ks) rids lo hi results =
     (if k \<ge> lo \<and> k \<le> hi then
        (case rids of
           [] \<Rightarrow> Inl UndefinedBehaviour
         | r # rs \<Rightarrow> scan_leaf ks rs lo hi (results @ [(k, r)]))
      else if k > hi then Inr (results, True)
      else scan_leaf ks (tl rids) lo hi results)"

text \<open>
  The walk along the leaf chain. It ends at the invalid page id, at a page that cannot
  be fetched or past \<open>hi_key\<close>; on a chain that never ends it does not return. A page of
  the chain that holds an internal node is outside the decoded model (the code would
  decode its bytes as leaf entries) and is reported as an error.
\<close>

partial_function (option) RangeScan_from ::
  "NodePool \<Rightarrow> byte list \<Rightarrow> byte list \<Rightarrow> page_id_t \<Rightarrow> (byte list \<times> RecordID) list \<Rightarrow>
   (error + (byte list \<times> RecordID) list) option" where
  "RangeScan_from bpm lo hi leaf_page results =
     (if leaf_page = INVALID_PAGE_ID then Some (Inr results)
      else
        (case FetchNode bpm leaf_page of
           None \<Rightarrow> Some (Inr results)
         | Some node \<Rightarrow>
             (case node of
                LeafNode keys rids nxt \<Rightarrow>
                  (case scan_leaf keys rids lo hi results of
                     Inl e \<Rightarrow> Some (Inl e)
                   | Inr (results', done) \<Rightarrow>
                       if done then Some (Inr results')
                       else RangeScan_from bpm lo hi nxt results')
              | InternalNode keys children \<Rightarrow> Some (Inl UndefinedBehaviour))))"

definition RangeScan ::
  "BPlusTree \<Rightarrow> NodePool \<Rightarrow> byte list \<Rightarrow> byte list \<Rightarrow> (error + (byte list \<times> RecordID) list) option" where
  "RangeScan tree bpm lo_key hi_key =
     Option.bind (FindLeaf tree bpm lo_key)
       (\<lambda>r. case r of
          Inl e \<Rightarrow> Some (Inl e)
        | Inr leaf_page \<Rightarrow> RangeScan_from bpm lo_key hi_key leaf_page [])"

text \<open>The leaf chain from a page: the pages met by following \<open>next_leaf\<close> up to the
  invalid page id.\<close>

inductive leaf_chain :: "NodePool \<Rightarrow> page_id_t \<Rightarrow> page_id_t list \<Rightarrow> bool" where
  leaf_chain_end: "leaf_chain bpm INVALID_PAGE_ID []"
| leaf_chain_step: "p \<noteq> INVALID_PAGE_ID \<Longrightarrow> nodes bpm p = LeafNode ks rs nxt \<Longrightarrow>
     leaf_chain bpm nxt ps \<Longrightarrow> leaf_chain bpm p (p # ps)"

text \<open>A sequence of \<open>Insert\<close> calls, stopping at the first exception.\<close>

fun insert_all ::
  "BPlusTree \<Rightarrow> NodePool \<Rightarrow> (byte list \<times> RecordID) list \<Rightarrow> (error + (BPlusTree \<times> NodePool)) option" where
  "insert_all tree bpm [] = Some (Inr (tree, bpm))"
| "insert_all tree bpm ((key, rid) # rest) =
     Option.bind (BPlusTree_Insert tree bpm key rid)
       (\<lambda>r. case r of Inl e \<Rightarrow> Some (Inl e) | Inr (tree', bpm') \<Rightarrow> insert_all tree' bpm' rest)"

text \<open>
  An index as \<open>Catalog::CreateIndex\<close> creates it: the root, page 1, is an empty leaf
  with no next leaf; \<open>max_keys\<close> is the default 50. A page never written decodes as an
  internal node without keys whose only child is page 0.
\<close>

definition empty_index_pool :: NodePool where
  "empty_index_pool =
     \<lparr>nodes = (\<lambda>p. if p = 1 then LeafNode [] [] INVALID_PAGE_ID else InternalNode [] [0]),
      node_next_page_id = 2, node_fetchable = (\<lambda>p. True), node_can_new = True\<rparr>"

definition default_tree :: BPlusTree where
  "default_tree = \<lparr>root_page_id = 1, max_keys = 50\<rparr>"

definition same_key_entries :: "nat \<Rightarrow> (byte list \<times> RecordID) list" where
  "same_key_entries n = map (\<lambda>i. ([97], \<lparr>page_id = 7, slot_id = of_nat i\<rparr>)) [0..<n]"

text \<open>A leaf with two entries in a tree of fanout 2, for the split of a leaf.\<close>

definition small_tree :: BPlusTree where
  "small_tree = \<lparr>root_page_id = 1, max_keys = 2\<rparr>"

definition small_pool :: NodePool where
  "small_pool =
     \<lparr>nodes = (\<lambda>p. if p = 1 then LeafNode [[97], [99]]
                      [\<lparr>page_id = 7, slot_id = 0\<rparr>, \<lparr>page_id = 7, slot_id = 1\<rparr>] INVALID_PAGE_ID
                    else InternalNode [] [0]),
      node_next_page_id = 2, node_fetchable = (\<lambda>p. True), node_can_new = True\<rparr>"

text \<open>A key of 5000 bytes, between \<open>"a"\<close> and \<open>"c"\<close> in key order.\<close>

definition long_key :: "byte list" where
  "long_key = 98 # replicate 4999 98"


text \<open>
  Further example states: a pool whose free-space map says that heap page 2 has between
  16 and 31 free bytes; the heap page holding the serialized empty document; a page with
  no free space at all; a pool whose free-space map still advertises that full page
  (a stale entry); that pool after \<open>AllocateNewPage\<close>; and a pool whose heap page holds
  one tombstone.
\<close>

definition sixteen_free_pool :: BufferPool where
  "sixteen_free_pool = example_pool\<lparr>pages := (pages example_pool)(1 := [0, 0, 1] @ replicate 4093 0)\<rparr>"

definition page_empty_doc :: "byte list" where
  "page_empty_doc = [1,0,12,0,251,15,0,0,251,15,5,0] @ replicate 4079 0 @ [5,0,0,0,0]"

definition full_page :: "byte list" where
  "full_page = [0,0,8,0,8,0,0,0] @ replicate 4088 0"

definition stale_pool :: BufferPool where
  "stale_pool = example_pool\<lparr>pages := (pages example_pool)(2 := full_page)\<rparr>"

definition pool_after_alloc :: BufferPool where
  "pool_after_alloc = stale_pool\<lparr>pages := (pages stale_pool)(3 := empty_page, 1 := example_fsm_page[3 := 255]), next_page_id := 4\<rparr>"

definition tombstone_pool :: BufferPool where
  "tombstone_pool = example_pool\<lparr>pages := (pages example_pool)(2 := page_tombstone)\<rparr>"

definition page_tombstone_reused :: "byte list" where
  "page_tombstone_reused =
     [1,0,12,0,248,15,0,0,248,15,5,0] @ replicate 4076 0 @ [5,0,0,0,0] @ [1,2,3]"

text \<open>
  Two documents \<open>{a: s}\<close> whose string \<open>s\<close> is 65528 and 65521 zero bytes long, of 65541
  and 65534 serialized bytes, and the heap page that holds the first five bytes of the
  first.
\<close>

definition truncated_document :: BsonDocument where
  "truncated_document = [([97], BsonString (replicate 65528 0))]"

definition wrapping_document :: BsonDocument where
  "wrapping_document = [([97], BsonString (replicate 65521 0))]"

definition page_truncated_doc :: "byte list" where
  "page_truncated_doc = [1,0,12,0,251,15,0,0,251,15,5,0] @ replicate 4079 0 @ [5,0,1,0,2]"

section \<open>Byte-level facts\<close>

lemma le_word_le_bytes: "le_word (le_bytes n w) = take_bit (8 * n) w"
proof (induction n arbitrary: w)
  case 0
  then show ?case by simp
next
  case (Suc n)
  show ?case
    apply (simp add: Suc)
    apply (rule bit_word_eqI)
    apply (auto simp: bit_or_iff bit_ucast_iff bit_push_bit_iff bit_take_bit_iff bit_drop_bit_eq)
    done
qed

lemma le16_le_bytes: "le16 w = le_bytes 2 w"
  by (simp add: le16_def eval_nat_numeral)

lemma le32_le_bytes: "le32 w = le_bytes 4 w"
  by (simp add: le32_def eval_nat_numeral)

lemma le64_le_bytes: "le64 w = le_bytes 8 w"
  by (simp add: le64_def eval_nat_numeral)

lemma le_word_le16 [simp]: "le_word (le16 w) = w"
  by (simp add: le16_le_bytes le_word_le_bytes take_bit_word_eq_self)

lemma le_word_le32 [simp]: "le_word (le32 w) = w"
  by (simp add: le32_le_bytes le_word_le_bytes take_bit_word_eq_self)

lemma le_word_le64 [simp]: "le_word (le64 w) = w"
  by (simp add: le64_le_bytes le_word_le_bytes take_bit_word_eq_self)

lemma length_le16 [simp]: "length (le16 w) = 2"
  by (simp add: le16_def)

lemma length_le32 [simp]: "length (le32 w) = 4"
  by (simp add: le32_def)

lemma length_le64 [simp]: "length (le64 w) = 8"
  by (simp add: le64_def)

lemma length_memcpy [simp]: "off + length src \<le> length d \<Longrightarrow> length (memcpy d off src) = length d"
  by (simp add: memcpy_def)

lemma take_drop_memcpy_same:
  "off + length src \<le> length d \<Longrightarrow> take (length src) (drop off (memcpy d off src)) = src"
  by (simp add: memcpy_def)

lemma take_drop_memcpy_before:
  "o' + n \<le> off \<Longrightarrow> off + length src \<le> length d \<Longrightarrow>
   take n (drop o' (memcpy d off src)) = take n (drop o' d)"
proof -
  assume a: "o' + n \<le> off" "off + length src \<le> length d"
  have "take n (drop o' (take off d)) = take n (take (off - o') (drop o' d))"
    by (simp add: drop_take)
  also have "\<dots> = take n (drop o' d)"
    using a by (simp add: min_def)
  finally show ?thesis
    using a by (simp add: memcpy_def)
qed

lemma take_drop_memcpy_after:
  "off + length src \<le> o' \<Longrightarrow> off + length src \<le> length d \<Longrightarrow>
   take n (drop o' (memcpy d off src)) = take n (drop o' d)"
  by (simp add: memcpy_def)

lemma length_wr16 [simp]: "off + 2 \<le> length d \<Longrightarrow> length (wr16 d off v) = length d"
  by (simp add: wr16_def)

lemma rd16_wr16_same [simp]: "off + 2 \<le> length d \<Longrightarrow> rd16 (wr16 d off v) off = v"
  using take_drop_memcpy_same [of off "le16 v" d] by (simp add: rd16_def wr16_def)

lemma rd16_wr16_other [simp]:
  "o' + 2 \<le> off \<or> off + 2 \<le> o' \<Longrightarrow> off + 2 \<le> length d \<Longrightarrow>
   rd16 (wr16 d off v) o' = rd16 d o'"
  using take_drop_memcpy_before [of o' 2 off "le16 v" d]
    take_drop_memcpy_after [of off "le16 v" o' d 2]
  by (auto simp: rd16_def wr16_def)

lemma rd16_memcpy_other [simp]:
  "o' + 2 \<le> off \<or> off + length src \<le> o' \<Longrightarrow> off + length src \<le> length d \<Longrightarrow>
   rd16 (memcpy d off src) o' = rd16 d o'"
  using take_drop_memcpy_before [of o' 2 off src d]
    take_drop_memcpy_after [of off src o' d 2]
  by (auto simp: rd16_def)


section \<open>Slotted page: header arithmetic\<close>

lemma wf_pageD:
  assumes "wf_page d"
  shows "length d = 4096" "unat (free_space_begin d) = 8 + 4 * unat (num_slots d)"
    "unat (free_space_begin d) \<le> unat (free_space_end d)" "unat (free_space_end d) \<le> 4096"
    "unat (num_slots d) \<le> 1022"
  using assms by (auto simp: wf_page_def PAGE_SIZE_def)

lemma find_free_slot_range:
  "find_free_slot d n i = Inr t \<Longrightarrow> t = - 1 \<or> (\<exists>j. i \<le> j \<and> j < n \<and> t = of_nat j \<and> slot_length d j = 0 \<and> slot_in_bounds d j)"
proof (induction d n i rule: find_free_slot.induct)
  case (1 d n i)
  show ?case
  proof (cases "i < n")
    case True
    note lt = this
    show ?thesis
    proof (cases "slot_in_bounds d i")
      case True
      note ib = this
      show ?thesis
      proof (cases "slot_length d i = 0")
        case True
        with lt ib "1.prems" show ?thesis
          by (auto simp: find_free_slot.simps [of d n i])
      next
        case False
        with lt ib "1.prems" have "find_free_slot d n (i + 1) = Inr t"
          by (simp add: find_free_slot.simps [of d n i])
        with "1.IH" [OF lt _ False] ib have "t = - 1 \<or> (\<exists>j. i + 1 \<le> j \<and> j < n \<and> t = of_nat j \<and> slot_length d j = 0 \<and> slot_in_bounds d j)"
          by simp
        then show ?thesis by auto
      qed
    next
      case False
      with lt "1.prems" show ?thesis
        by (simp add: find_free_slot.simps [of d n i])
    qed
  next
    case False
    with "1.prems" show ?thesis
      by (simp add: find_free_slot.simps [of d n i])
  qed
qed

lemma DeleteRecord_header:
  assumes wf: "wf_page d" and del: "DeleteRecord d s = Inr (d', ok)"
  shows "num_slots d' = num_slots d \<and> free_space_begin d' = free_space_begin d \<and> free_space_end d' = free_space_end d \<and> length d' = length d"
proof (cases ok)
  case False
  with del have "d' = d" by (auto simp: DeleteRecord_def Let_def split: if_splits)
  then show ?thesis by simp
next
  case True
  with del have lt: "s < num_slots d" and ib: "slot_in_bounds d (unat s)"
    and d': "d' = set_slot_offset (set_slot_length d (unat s) 0) (unat s) 0"
    by (auto simp: DeleteRecord_def Let_def split: if_splits)
  from ib have b: "8 + 4 * unat s + 4 \<le> length d" by (simp add: slot_in_bounds_def)
  show ?thesis
    using b by (simp add: d' set_slot_offset_def set_slot_length_def num_slots_def free_space_begin_def free_space_end_def)
qed

lemmas hdr_defs = num_slots_def free_space_begin_def free_space_end_def set_num_slots_def
  set_free_space_begin_def set_free_space_end_def set_reserved_def
lemmas slot_defs = slot_offset_def slot_length_def set_slot_offset_def set_slot_length_def
  slot_in_bounds_def

lemma unat16_less: "unat (w :: 16 word) < 65536"
  using unsigned_less [of w, where 'a = nat] by simp

lemma unat16_sub: "unat ((a :: 16 word) - b) =
    (if unat b \<le> unat a then unat a - unat b else unat a + 65536 - unat b)"
  by (simp add: unat_sub_if_size word_size)

lemma unat16_add: "unat ((a :: 16 word) + b) = (unat a + unat b) mod 65536"
  by (simp add: unat_word_ariths)

lemma unat16_minus1: "unat (- 1 :: 16 word) = 65535"
  by (simp add: unsigned_minus_1_eq_mask mask_eq_exp_minus_1)

lemma InsertRecord_success:
  assumes wf: "wf_page d" and ins: "InsertRecord d r l = Inr (d', slot)"
  shows "(slot = - 1 \<and> d' = d) \<or>
         (slot \<noteq> - 1 \<and> unat (free_space_end d') + unat l = unat (free_space_end d) \<and>
          length d' = length d \<and>
          slot_offset d' (unat slot) = free_space_end d' \<and> slot_length d' (unat slot) = l \<and>
          ((unat slot < unat (num_slots d) \<and> slot_length d (unat slot) = 0 \<and>
            num_slots d' = num_slots d \<and> free_space_begin d' = free_space_begin d) \<or>
           (slot = num_slots d \<and> unat (num_slots d') = unat (num_slots d) + 1 \<and>
            unat (free_space_begin d') = unat (free_space_begin d) + 4 \<and>
            unat (free_space_begin d') \<le> unat (free_space_end d'))))"
proof -
  note w = wf_pageD [OF wf]
  from ins obtain t where t: "find_free_slot d (unat (num_slots d)) 0 = Inr t"
    by (auto simp: InsertRecord_def reserve_record_def split: sum.splits)
  define sn where "sn = (if t = - 1 then l + 4 else l)"
  show ?thesis
  proof (cases "int (unat (free_space_end d)) - int (unat (free_space_begin d)) < int (unat sn)")
    case True
    with ins t have "d' = d" "slot = - 1"
      by (auto simp: InsertRecord_def reserve_record_def sn_def Let_def)
    then show ?thesis by simp
  next
    case False
    then have room: "unat (free_space_begin d) + unat sn \<le> unat (free_space_end d)"
      by linarith
    define d1 where "d1 = set_free_space_end d (free_space_end d - l)"
    have len1: "length d1 = 4096" using w by (simp add: d1_def hdr_defs)
    have fse1: "free_space_end d1 = free_space_end d - l"
      using w by (simp add: d1_def hdr_defs)
    have hdr1: "num_slots d1 = num_slots d" "free_space_begin d1 = free_space_begin d"
      using w by (simp_all add: d1_def hdr_defs)
    from ins t False have ok: "unat (free_space_end d - l) + unat l \<le> 4096" "unat l \<le> length r"
      by (auto simp: InsertRecord_def reserve_record_def sn_def Let_def d1_def [symmetric] fse1 len1 split: if_splits)
    have l_le: "unat l + (if t = - 1 then 4 else 0) \<le> unat (free_space_end d) - unat (free_space_begin d)"
    proof (cases "t = - 1")
      case False
      with room show ?thesis by (simp add: sn_def)
    next
      case True
      show ?thesis
      proof (cases "unat l + 4 < 65536")
        case True
        then have "unat (l + 4) = unat l + 4"
          by (simp add: unat16_add)
        with room \<open>t = - 1\<close> show ?thesis by (simp add: sn_def)
      next
        case False
        then have big: "unat l \<ge> 65532" by simp
        with w have "unat (free_space_end d - l) = unat (free_space_end d) + 65536 - unat l"
          by (simp add: unat16_sub)
        with ok unat16_less [of l] show ?thesis by simp
      qed
    qed
    have u1: "unat (free_space_end d - l) = unat (free_space_end d) - unat l"
      using l_le by (simp add: unat16_sub)
    define e where "e = unat (free_space_end d) - unat l"
    have e8: "8 \<le> e" "e + unat l \<le> 4096" "unat (free_space_begin d) + (if t = - 1 then 4 else 0) \<le> e"
      "e + unat l = unat (free_space_end d)"
      using l_le w by (auto simp: e_def)
    define d2 where "d2 = memcpy d1 e (take (unat l) r)"
    have lt: "length (take (unat l) r) = unat l" using ok by simp
    have len2: "length d2 = 4096" using e8 len1 lt by (simp add: d2_def)
    have hdr2: "num_slots d2 = num_slots d" "free_space_begin d2 = free_space_begin d"
      "free_space_end d2 = free_space_end d - l"
      using e8 len1 lt hdr1 fse1 by (simp_all add: d2_def hdr_defs)
    show ?thesis
    proof (cases "t = - 1")
      case True
      define d3 where "d3 = set_free_space_begin (set_num_slots d2 (num_slots d + 1)) (free_space_begin (set_num_slots d2 (num_slots d + 1)) + 4)"
      have len3: "length d3 = 4096" using len2 by (simp add: d3_def hdr_defs)
      have hdr3: "num_slots d3 = num_slots d + 1" "free_space_begin d3 = free_space_begin d + 4"
        "free_space_end d3 = free_space_end d - l"
        using len2 hdr2 by (simp_all add: d3_def hdr_defs)
      have n_small: "unat (num_slots d) \<le> 1021" using e8 w True by simp
      have ib: "slot_in_bounds d3 (unat (num_slots d))"
        using n_small len3 by (simp add: slot_in_bounds_def)
      from ins t True False have res: "slot = num_slots d"
        "d' = set_slot_length (set_slot_offset d3 (unat (num_slots d)) (free_space_end d3)) (unat (num_slots d)) l"
        using ok ib
        by (auto simp: InsertRecord_def reserve_record_def Let_def sn_def d1_def [symmetric] fse1 len1 u1 e_def [symmetric]
            d2_def [symmetric] hdr2 d3_def [symmetric] split: if_splits)
      have ne: "slot \<noteq> - 1" using n_small res unat16_minus1 by auto
      have hdr': "num_slots d' = num_slots d + 1" "free_space_begin d' = free_space_begin d + 4"
        "free_space_end d' = free_space_end d - l" "length d' = 4096"
        "slot_offset d' (unat slot) = free_space_end d - l" "slot_length d' (unat slot) = l"
        using n_small len3 hdr3 by (simp_all add: res slot_defs hdr_defs)
      have "unat (num_slots d + 1) = unat (num_slots d) + 1"
        "unat (free_space_begin d + 4) = unat (free_space_begin d) + 4"
        using n_small w by (simp_all add: unat16_add)
      with ne hdr' res(1) u1 e8 w True show ?thesis by (simp add: e_def)
    next
      case False
      with find_free_slot_range [OF t] obtain j where j: "j < unat (num_slots d)" "t = of_nat j"
        "slot_length d j = 0" by auto
      have uj: "unat t = j" using j w by (simp add: unat_of_nat)
      have ib: "slot_in_bounds d2 j" using j w len2 by (simp add: slot_in_bounds_def)
      from ins t False \<open>\<not> int (unat (free_space_end d)) - int (unat (free_space_begin d)) < int (unat sn)\<close>
      have res: "slot = t"
        "d' = set_slot_length (set_slot_offset d2 j (free_space_end d2)) j l"
        using ok ib
        by (auto simp: InsertRecord_def reserve_record_def Let_def sn_def d1_def [symmetric] fse1 len1 u1 e_def [symmetric]
            d2_def [symmetric] hdr2 uj split: if_splits)
      have hdr': "num_slots d' = num_slots d" "free_space_begin d' = free_space_begin d"
        "free_space_end d' = free_space_end d - l" "length d' = 4096"
        "slot_offset d' j = free_space_end d - l" "slot_length d' j = l"
        using j w len2 hdr2 by (simp_all add: res slot_defs hdr_defs)
      with False res(1) uj j u1 e8 w show ?thesis by (simp add: e_def)
    qed
  qed
qed

lemma wf_page_slot:
  assumes "wf_page d" "i < unat (num_slots d)" "slot_length d i \<noteq> 0"
  shows "unat (free_space_end d) \<le> unat (slot_offset d i)"
    "unat (slot_offset d i) + unat (slot_length d i) \<le> 4096"
  using assms by (auto simp: wf_page_def list_all_iff live_slot_ok_def PAGE_SIZE_def)

lemma UpdateRecord_header:
  assumes wf: "wf_page d" and upd: "UpdateRecord d s r l = Inr (d', ok)"
  shows "num_slots d' = num_slots d \<and> free_space_begin d' = free_space_begin d \<and>
         free_space_end d' = free_space_end d \<and> length d' = length d"
proof (cases ok)
  case False
  with upd have "d' = d" by (auto simp: UpdateRecord_def Let_def split: if_splits)
  then show ?thesis by simp
next
  case True
  note w = wf_pageD [OF wf]
  define j where "j = unat s"
  define off where "off = unat (slot_offset d j)"
  from True upd have lt: "s < num_slots d" and live: "slot_length d j \<noteq> 0"
    and fit: "l \<le> slot_length d j" and lr: "unat l \<le> length r"
    and d': "d' = set_slot_length (memcpy d off (take (unat l) r)) j l"
    by (auto simp: UpdateRecord_def Let_def j_def off_def split: if_splits)
  from lt have jn: "j < unat (num_slots d)" by (simp add: j_def word_less_nat_alt)
  note sl = wf_page_slot [OF wf jn live]
  have "unat l \<le> unat (slot_length d j)" using fit by (simp add: word_le_nat_alt)
  with sl w have b: "8 \<le> off" "off + unat l \<le> 4096" by (auto simp: off_def)
  have lt': "length (take (unat l) r) = unat l" using lr by simp
  have len: "length (memcpy d off (take (unat l) r)) = 4096" using b w lt' by simp
  have jb: "8 + 4 * j + 4 \<le> 4096" using jn w by simp
  show ?thesis
    using b w lt' len jb by (simp add: d' hdr_defs slot_defs)
qed

lemma GetFreeSpace_cong:
  "free_space_begin d' = free_space_begin d \<Longrightarrow> free_space_end d' = free_space_end d \<Longrightarrow>
   GetFreeSpace d' = GetFreeSpace d"
  by (simp add: GetFreeSpace_def)

lemma DeleteRecord_slot:
  assumes wf: "wf_page d" and del: "DeleteRecord d s = Inr (d', True)"
  shows "slot_length d' (unat s) = 0 \<and> slot_offset d' (unat s) = 0"
proof -
  from del have ib: "slot_in_bounds d (unat s)"
    and d': "d' = set_slot_offset (set_slot_length d (unat s) 0) (unat s) 0"
    by (auto simp: DeleteRecord_def Let_def split: if_splits)
  from ib have b: "8 + 4 * unat s + 4 \<le> length d" by (simp add: slot_in_bounds_def)
  show ?thesis using b by (simp add: d' slot_defs)
qed

lemma DeleteRecord_defined:
  assumes wf: "wf_page d"
  shows "\<exists>d' ok. DeleteRecord d s = Inr (d', ok)"
proof -
  note w = wf_pageD [OF wf]
  have "s < num_slots d \<Longrightarrow> slot_in_bounds d (unat s)"
    using w by (simp add: slot_in_bounds_def word_less_nat_alt)
  then show ?thesis
    by (auto simp: DeleteRecord_def Let_def)
qed


lemmas page_eval = hdr_defs slot_defs rd16_def wr16_def memcpy_def le16_def

lemma Init_empty_page: "Init (replicate 4096 0) 4096 = Inr empty_page"
  by (simp add: Init_def empty_page_def page_eval Let_def replicate_add [symmetric])

lemma wf_empty_page: "wf_page empty_page"
  by (simp add: wf_page_def empty_page_def PAGE_SIZE_def page_eval)

lemma InsertRecord_empty_page: "InsertRecord empty_page [1,2,3] 3 = Inr (page_one_record, 0)"
  by (simp add: InsertRecord_def reserve_record_def find_free_slot.simps empty_page_def page_one_record_def
      page_eval Let_def)

lemma DeleteRecord_page_one_record: "DeleteRecord page_one_record 0 = Inr (page_tombstone, True)"
  by (simp add: DeleteRecord_def page_one_record_def page_tombstone_def page_eval Let_def)

lemma wf_page_tombstone: "wf_page page_tombstone"
  by (simp add: wf_page_def page_tombstone_def PAGE_SIZE_def page_eval live_slot_ok_def)

lemma InsertRecord_page_tombstone: "InsertRecord page_tombstone [9] 1 = Inr (page_reused, 0)"
  by (simp add: InsertRecord_def reserve_record_def find_free_slot.simps page_tombstone_def page_reused_def
      page_eval Let_def)

section \<open>Slotted page: the free space never grows back\<close>

text \<open>
  On a well-formed slotted page every \<open>DeleteRecord\<close> and every \<open>UpdateRecord\<close> returns,
  and so does every \<open>InsertRecord\<close> of a record shorter than 65532 bytes (\<open>record\<close> is
  a buffer of at least \<open>record_len\<close> bytes). A \<open>DeleteRecord\<close> that finds a live record
  in the slot writes zeros over the four bytes of the slot entry and nothing else; any
  other leaves the page as it is.
\<close>

lemma find_free_slot_defined:
  "(\<And>j. j < n \<Longrightarrow> slot_in_bounds d j) \<Longrightarrow> \<exists>t. find_free_slot d n i = Inr t"
proof (induction d n i rule: find_free_slot.induct)
  case (1 d n i)
  show ?case
  proof (cases "i < n")
    case False
    then show ?thesis by (simp add: find_free_slot.simps [of d n i])
  next
    case True
    with "1.prems" have ib: "slot_in_bounds d i" by simp
    show ?thesis
    proof (cases "slot_length d i = 0")
      case True
      with \<open>i < n\<close> ib show ?thesis by (simp add: find_free_slot.simps [of d n i])
    next
      case False
      from "1.IH" [OF \<open>i < n\<close> _ False] ib "1.prems"
      have "\<exists>t. find_free_slot d n (i + 1) = Inr t" by simp
      with \<open>i < n\<close> ib False show ?thesis by (simp add: find_free_slot.simps [of d n i])
    qed
  qed
qed

lemma InsertRecord_defined:
  assumes wf: "wf_page d" and lr: "unat l \<le> length r" and small: "unat l < 65532"
  shows "\<exists>d' slot. InsertRecord d r l = Inr (d', slot)"
proof -
  note w = wf_pageD [OF wf]
  have "\<And>j. j < unat (num_slots d) \<Longrightarrow> slot_in_bounds d j"
    using w by (simp add: slot_in_bounds_def)
  from find_free_slot_defined [OF this] obtain t where
    t: "find_free_slot d (unat (num_slots d)) 0 = Inr t" by blast
  define sn where "sn = (if t = - 1 then l + 4 else l)"
  show ?thesis
  proof (cases "int (unat (free_space_end d)) - int (unat (free_space_begin d)) < int (unat sn)")
    case True
    then have "InsertRecord d r l = Inr (d, - 1)"
      using t by (simp add: InsertRecord_def sn_def Let_def)
    then show ?thesis by blast
  next
    case False
    then have room: "unat (free_space_begin d) + unat sn \<le> unat (free_space_end d)"
      by linarith
    have "unat (l + 4) = unat l + 4"
      using small by (simp add: unat16_add)
    with room have l_le: "unat l + (if t = - 1 then 4 else 0) \<le> unat (free_space_end d) - unat (free_space_begin d)"
      by (simp add: sn_def split: if_splits)
    define d1 where "d1 = set_free_space_end d (free_space_end d - l)"
    have len1: "length d1 = 4096" using w by (simp add: d1_def hdr_defs)
    have fse1: "free_space_end d1 = free_space_end d - l"
      using w by (simp add: d1_def hdr_defs)
    have hdr1: "num_slots d1 = num_slots d" "free_space_begin d1 = free_space_begin d"
      using w by (simp_all add: d1_def hdr_defs)
    have u1: "unat (free_space_end d - l) = unat (free_space_end d) - unat l"
      using l_le by (simp add: unat16_sub)
    define e where "e = unat (free_space_end d) - unat l"
    have e8: "8 \<le> e" "e + unat l \<le> 4096" "unat (free_space_begin d) + (if t = - 1 then 4 else 0) \<le> e"
      "e + unat l = unat (free_space_end d)"
      using l_le w by (auto simp: e_def)
    define d2 where "d2 = memcpy d1 e (take (unat l) r)"
    have lt: "length (take (unat l) r) = unat l" using lr by simp
    have len2: "length d2 = 4096" using e8 len1 lt by (simp add: d2_def)
    have hdr2: "num_slots d2 = num_slots d" "free_space_begin d2 = free_space_begin d"
      "free_space_end d2 = free_space_end d - l"
      using e8 len1 lt hdr1 fse1 by (simp_all add: d2_def hdr_defs)
    show ?thesis
    proof (cases "t = - 1")
      case True
      define d3 where "d3 = set_free_space_begin (set_num_slots d2 (num_slots d + 1)) (free_space_begin (set_num_slots d2 (num_slots d + 1)) + 4)"
      have len3: "length d3 = 4096" using len2 by (simp add: d3_def hdr_defs)
      have n_small: "unat (num_slots d) \<le> 1021" using e8 w True by simp
      have ib: "slot_in_bounds d3 (unat (num_slots d))"
        using n_small len3 by (simp add: slot_in_bounds_def)
      have "\<exists>d'. InsertRecord d r l = Inr (d', num_slots d)"
        using t True False e8 lr ib
        by (simp add: InsertRecord_def reserve_record_def Let_def sn_def d1_def [symmetric] fse1 len1 u1 e_def [symmetric]
            d2_def [symmetric] hdr2 d3_def [symmetric])
      then show ?thesis by blast
    next
      case nt: False
      with find_free_slot_range [OF t] obtain j where j: "j < unat (num_slots d)" "t = of_nat j"
        "slot_length d j = 0" by auto
      have uj: "unat t = j" using j w by (simp add: unat_of_nat)
      have ib: "slot_in_bounds d2 j" using j w len2 by (simp add: slot_in_bounds_def)
      have "\<exists>d'. InsertRecord d r l = Inr (d', t)"
        using t nt False e8 lr ib
        by (simp add: InsertRecord_def reserve_record_def Let_def sn_def d1_def [symmetric] fse1 len1 u1 e_def [symmetric]
            d2_def [symmetric] hdr2 uj)
      then show ?thesis by blast
    qed
  qed
qed

lemma DeleteRecord_only_zeroes_slot:
  assumes wf: "wf_page d"
  shows "DeleteRecord d s =
     (if s < num_slots d \<and> slot_length d (unat s) \<noteq> 0
      then Inr (memcpy d (8 + 4 * unat s) [0, 0, 0, 0], True)
      else Inr (d, False))"
proof -
  note w = wf_pageD [OF wf]
  show ?thesis
  proof (cases "s < num_slots d")
    case False
    then show ?thesis by (simp add: DeleteRecord_def not_less)
  next
    case True
    then have lt: "unat s < unat (num_slots d)" by (simp add: word_less_nat_alt)
    with w have b: "8 + 4 * unat s + 4 \<le> length d" by simp
    then have ib: "slot_in_bounds d (unat s)" by (simp add: slot_in_bounds_def)
    define a where "a = 8 + 4 * unat s"
    have a: "a + 4 \<le> length d" using b by (simp add: a_def)
    have "set_slot_offset (set_slot_length d (unat s) 0) (unat s) 0 = memcpy d a [0, 0, 0, 0]"
      using a
      by (simp add: set_slot_offset_def set_slot_length_def wr16_def memcpy_def le16_def a_def [symmetric]
          min_def add.commute)
    moreover from True have "\<not> num_slots d \<le> s" by simp
    ultimately show ?thesis
      using True ib by (simp add: DeleteRecord_def Let_def a_def)
  qed
qed

lemma UpdateRecord_defined:
  assumes wf: "wf_page d" and lr: "unat l \<le> length r"
  shows "\<exists>d' ok. UpdateRecord d s r l = Inr (d', ok)"
proof (cases "s < num_slots d \<and> slot_length d (unat s) \<noteq> 0 \<and> l \<le> slot_length d (unat s)")
  case False
  note w = wf_pageD [OF wf]
  have "s < num_slots d \<Longrightarrow> slot_in_bounds d (unat s)"
    using w by (simp add: slot_in_bounds_def word_less_nat_alt)
  with False show ?thesis
    by (auto simp: UpdateRecord_def Let_def not_less)
next
  case True
  note w = wf_pageD [OF wf]
  define j where "j = unat s"
  define off where "off = unat (slot_offset d j)"
  from True have jn: "j < unat (num_slots d)" and live: "slot_length d j \<noteq> 0"
    and fit: "unat l \<le> unat (slot_length d j)"
    by (simp_all add: j_def word_less_nat_alt word_le_nat_alt)
  note sl = wf_page_slot [OF wf jn live]
  from sl fit have b: "off + unat l \<le> 4096" by (simp add: off_def)
  have lt': "length (take (unat l) r) = unat l" using lr by simp
  have len: "length (memcpy d off (take (unat l) r)) = 4096" using b w lt' by simp
  have ib: "slot_in_bounds d j" using jn w by (simp add: slot_in_bounds_def)
  have ib': "slot_in_bounds (memcpy d off (take (unat l) r)) j"
    using jn w len by (simp add: slot_in_bounds_def)
  from True have "s < num_slots d" by blast
  then have "\<not> num_slots d \<le> s" by simp
  then show ?thesis
    using True ib ib' b w lr
    by (auto simp: UpdateRecord_def Let_def j_def [symmetric] off_def [symmetric])
qed

text \<open>
  The calls that return. On a well-formed slotted page \<open>DeleteRecord\<close> leaves
  \<open>free_space_begin\<close>, \<open>free_space_end\<close> and \<open>GetFreeSpace\<close> unchanged and zeroes the
  slot's length and offset, \<open>UpdateRecord\<close> leaves \<open>free_space_end\<close> unchanged, and an
  \<open>InsertRecord\<close> that returns a slot has lowered \<open>free_space_end\<close> by exactly the record
  length, also when it reuses a tombstone slot.
\<close>

lemma free_space_end_of_returning_calls:
  assumes wf: "wf_page d"
  shows "(\<forall>s d' ok. DeleteRecord d s = Inr (d', ok) \<longrightarrow>
            free_space_begin d' = free_space_begin d \<and> free_space_end d' = free_space_end d \<and>
            GetFreeSpace d' = GetFreeSpace d \<and>
            (ok \<longrightarrow> slot_length d' (unat s) = 0 \<and> slot_offset d' (unat s) = 0)) \<and>
         (\<forall>s r l d' ok. UpdateRecord d s r l = Inr (d', ok) \<longrightarrow>
            free_space_end d' = free_space_end d) \<and>
         (\<forall>r l d' slot. InsertRecord d r l = Inr (d', slot) \<longrightarrow>
            (slot = - 1 \<longrightarrow> d' = d) \<and>
            (slot \<noteq> - 1 \<longrightarrow> unat (free_space_end d') + unat l = unat (free_space_end d)))"
proof (intro conjI allI impI)
  fix s d' ok
  assume del: "DeleteRecord d s = Inr (d', ok)"
  from DeleteRecord_header [OF wf del]
  show "free_space_begin d' = free_space_begin d" "free_space_end d' = free_space_end d"
    "GetFreeSpace d' = GetFreeSpace d"
    by (simp_all add: GetFreeSpace_def)
  assume ok
  with DeleteRecord_slot [OF wf] del
  show "slot_length d' (unat s) = 0" "slot_offset d' (unat s) = 0" by simp_all
next
  fix s r l d' ok
  assume "UpdateRecord d s r l = Inr (d', ok)"
  from UpdateRecord_header [OF wf this] show "free_space_end d' = free_space_end d" by simp
next
  fix r l d' slot
  assume ins: "InsertRecord d r l = Inr (d', slot)"
  {
    assume "slot = - 1"
    with InsertRecord_success [OF wf ins] show "d' = d" by simp
  }
  {
    assume "slot \<noteq> - 1"
    with InsertRecord_success [OF wf ins]
    show "unat (free_space_end d') + unat l = unat (free_space_end d)" by simp
  }
qed

lemma free_space_end_tombstone_reuse:
  "wf_page page_tombstone \<and>
   InsertRecord page_tombstone [9] 1 = Inr (page_reused, 0) \<and>
   unat (free_space_end page_reused) + unat (1 :: 16 word) = unat (free_space_end page_tombstone)"
proof -
  have "(0 :: 16 word) \<noteq> - 1" by simp
  with free_space_end_of_returning_calls [OF wf_page_tombstone] InsertRecord_page_tombstone
  have "unat (free_space_end page_reused) + unat (1 :: 16 word) = unat (free_space_end page_tombstone)"
    by blast
  with wf_page_tombstone InsertRecord_page_tombstone show ?thesis by blast
qed


text \<open>
  C10, the call that raises \<open>free_space_end\<close>. \<open>InsertRecord\<close> with a record of 65534
  bytes on a page right after \<open>Init\<close>: the page has no slot, so \<open>target_slot\<close> is \<open>-1\<close>
  and \<open>space_needed = record_len + 4\<close> wraps to 2 in \<open>uint16_t\<close>; the free space,
  \<open>4096 - 8\<close>, is not less than 2 and the space check passes; line 67,
  \<open>header->free_space_end -= record_len\<close>, then leaves \<open>free_space_end = 4098\<close>, which
  is more than the 4096 it was and more than the page size; and the \<open>memcpy\<close> of line 68
  copies 65534 bytes to byte 4098 of the 4096-byte frame, which is undefined behaviour.
  So an operation other than \<open>Init\<close> increases \<open>free_space_end\<close>, and \<open>InsertRecord\<close>
  does not decrement it by the record length.
\<close>

theorem InsertRecord_raises_free_space_end:
  "Init (replicate 4096 0) 4096 = Inr empty_page \<and>
   find_free_slot empty_page (unat (num_slots empty_page)) 0 = Inr (- 1) \<and>
   (65534 + 4 :: 16 word) = 2 \<and>
   free_space_begin empty_page = 8 \<and> free_space_end empty_page = 4096 \<and>
   free_space_end (reserve_record empty_page 65534) = 4098 \<and>
   InsertRecord empty_page (replicate 65534 0) 65534 = Inl UndefinedBehaviour"
  by (simp add: Init_empty_page InsertRecord_def reserve_record_def find_free_slot.simps
      empty_page_def page_eval Let_def)

section \<open>Free-space map\<close>

lemma fsm_scan_find:
  "n \<le> length data \<Longrightarrow>
   fsm_scan data c n i =
     Inr (case find (\<lambda>j. c \<le> data ! j \<and> 0 < data ! j) [i..<n] of
            None \<Rightarrow> INVALID_PAGE_ID | Some j \<Rightarrow> of_nat j)"
proof (induction data c n i rule: fsm_scan.induct)
  case (1 data c n i)
  show ?case
  proof (cases "i < n")
    case True
    then have up: "[i..<n] = i # [i + 1..<n]" by (simp add: upt_conv_Cons)
    from True "1.prems" have il: "\<not> length data \<le> i" by simp
    show ?thesis
    proof (cases "c \<le> data ! i \<and> 0 < data ! i")
      case True
      with \<open>i < n\<close> il show ?thesis
        by (simp add: fsm_scan.simps [of data c n i] up)
    next
      case False
      with "1.IH" [OF \<open>i < n\<close> il False "1.prems"] \<open>i < n\<close> il show ?thesis
        by (auto simp: fsm_scan.simps [of data c n i] up)
    qed
  next
    case False
    then show ?thesis by (simp add: fsm_scan.simps [of data c n i])
  qed
qed

lemma unat_BytesToCategory: "unat (BytesToCategory n) = min (unat n div 16) 255"
proof -
  have "unat (n div 16) = unat n div 16" by (simp add: unat_div)
  moreover have "unat (min (n div 16) 255) = min (unat (n div 16)) 255"
    by (simp add: min_def word_le_nat_alt)
  moreover have "unat (ucast (min (n div 16) 255) :: byte) = unat (min (n div 16) 255)"
    using calculation by (simp add: unsigned_ucast_eq take_bit_eq_mod min_def)
  ultimately show ?thesis by (simp add: BytesToCategory_def GRANULARITY_def Let_def)
qed

text \<open>
  What \<open>FindPageWithSpace\<close> computes when the map page can be fetched: the first
  entry that is at least \<open>min (n div 16) 255\<close> (the request rounded down and clamped)
  and greater than zero; the invalid page id when there is none.
\<close>

lemma FindPageWithSpace_first_fit:
  assumes "FetchPage bpm (fsm_start_page f) = Some data"
    and "unat (entries_per_page f) \<le> length data"
  shows "FindPageWithSpace f bpm n =
           Inr (case find (\<lambda>j. min (unat n div 16) 255 \<le> unat (data ! j) \<and> 0 < unat (data ! j))
                       [0..<unat (entries_per_page f)] of
                  None \<Rightarrow> INVALID_PAGE_ID | Some j \<Rightarrow> of_nat j)"
  using assms fsm_scan_find [of "unat (entries_per_page f)" data "BytesToCategory n" 0]
  by (simp add: FindPageWithSpace_def Let_def word_le_nat_alt word_less_nat_alt unat_BytesToCategory)

lemma BytesToCategory_17: "BytesToCategory 17 = 1"
  by (simp add: BytesToCategory_def GRANULARITY_def Let_def)

lemma find17: "FindPageWithSpace example_fsm sixteen_free_pool 17 = Inr 2"
  by (simp add: FindPageWithSpace_def sixteen_free_pool_def example_pool_def example_fsm_def
      FreeSpaceMap_new_def FetchPage_def BytesToCategory_17 fsm_scan.simps nth_append)

lemma spec17: "spec_find_page_with_space ([0, 0, 1] @ replicate 4093 0) 4096 17 = INVALID_PAGE_ID"
proof -
  have "\<And>i. i < 4096 \<Longrightarrow> unat (([0, 0, 1] @ replicate 4093 0 :: byte list) ! i) \<le> 1"
    by (simp add: nth_append nth_Cons split: nat.split)
  then have "find (\<lambda>i. (17 + 15) div 16 \<le> unat (([0, 0, 1] @ replicate 4093 0 :: byte list) ! i) \<and> 0 < unat (([0, 0, 1] @ replicate 4093 0 :: byte list) ! i)) [0..<4096] = None"
    by (fastforce simp: find_None_iff)
  then show ?thesis by (simp add: spec_find_page_with_space_def)
qed

text \<open>
  C6. \<open>find_page_with_space(n)\<close> is claimed to return the first page whose category is
  at least \<open>ceil(n / 16)\<close>. The code quantizes the request with \<open>BytesToCategory\<close>, which
  rounds down: asked for 17 bytes, it returns heap page 2, whose category 1 stands for 16
  free bytes, where the claimed rule finds no page.
\<close>

theorem FindPageWithSpace_rounds_down:
  "FindPageWithSpace example_fsm sixteen_free_pool 17 = Inr 2 \<and>
   pages sixteen_free_pool 1 ! 2 = 1 \<and> CategoryToBytes 1 = 16 \<and>
   spec_find_page_with_space (pages sixteen_free_pool 1) 4096 17 = INVALID_PAGE_ID"
  using find17 spec17
  by (simp add: sixteen_free_pool_def CategoryToBytes_def GRANULARITY_def)


section \<open>Heap file\<close>

lemma Serialize_empty: "Serialize [] = [5, 0, 0, 0, 0]"
  by (simp add: Serialize.simps le32_def)

lemma upd_slotted: "UpdateRecord empty_page 7 [5, 0, 0, 0, 0] 5 = Inr (empty_page, False)"
  by (simp add: UpdateRecord_def empty_page_def page_eval)

lemma del_slotted: "DeleteRecord empty_page 7 = Inr (empty_page, False)"
  by (simp add: DeleteRecord_def empty_page_def page_eval)

lemma heap_del: "HeapFile_DeleteRecord example_heap example_pool \<lparr>page_id = 2, slot_id = 7\<rparr> = Inr (False, example_pool)"
  by (simp add: HeapFile_DeleteRecord_def example_pool_def FetchPage_def del_slotted)

lemma ins_slotted: "InsertRecord empty_page [5, 0, 0, 0, 0] 5 = Inr (page_empty_doc, 0)"
  by (simp add: InsertRecord_def reserve_record_def find_free_slot.simps empty_page_def page_empty_doc_def page_eval Let_def)

lemma find9: "FindPageWithSpace example_fsm example_pool 9 = Inr 2"
  by (simp add: FindPageWithSpace_def example_pool_def example_fsm_def example_fsm_page_def
      FreeSpaceMap_new_def FetchPage_def BytesToCategory_def GRANULARITY_def fsm_scan.simps nth_append)

lemma heap_ins: "case HeapFile_InsertRecord example_heap example_pool [] of
     Inl e \<Rightarrow> False
   | Inr (rid, h, bpm) \<Rightarrow> rid = \<lparr>page_id = 2, slot_id = 0\<rparr> \<and> pages bpm 2 = page_empty_doc"
  apply (simp add: HeapFile_InsertRecord_def Serialize_empty Let_def)
  apply (simp add: find9 [simplified] example_heap_def HeapFile_new_def INVALID_PAGE_ID_def)
  apply (simp add: FetchPage_def example_pool_def ins_slotted [simplified] finish_insert_def Let_def
      UpdateFreeSpace_def GetFSMLocation_def example_fsm_def FreeSpaceMap_new_def c_div_def c_mod_def WritePage_def example_fsm_page_def)
  done

lemma UpdateFreeSpace_fetchable:
  "UpdateFreeSpace f b t n = Inr b' \<Longrightarrow> fetchable b' = fetchable b"
  by (auto simp: UpdateFreeSpace_def FetchPage_def WritePage_def
      split: sum.splits if_splits prod.splits)

lemma AllocateNewPage_preserves:
  assumes "AllocateNewPage h b = Inr (t, h', b')"
  shows "fsm h' = fsm h \<and> fetchable b' = fetchable b"
proof -
  from assms obtain b1 d b2 where n: "NewPage b = Some (t, b1)"
    and r: "RegisterNewPage (fsm h) b2 t (GetFreeSpace d) = Inr b'"
    and b2: "b2 = WritePage b1 t d"
    and h': "h' = (if sint t > sint (max_page_id h) then h\<lparr>max_page_id := t\<rparr> else h)"
    by (auto simp: AllocateNewPage_def Let_def split: option.splits sum.splits prod.splits)
  from n have "fetchable b1 = fetchable b"
    by (auto simp: NewPage_def split: if_splits)
  moreover from r have "fetchable b' = fetchable b2"
    by (simp add: RegisterNewPage_def UpdateFreeSpace_fetchable)
  ultimately show ?thesis by (simp add: h' b2 WritePage_def)
qed

lemma finish_insert_post:
  assumes "finish_insert h b t p s = Inr (rid, h', b')"
  shows "rid = \<lparr>page_id = t, slot_id = s\<rparr> \<and> h' = h \<and>
         (\<forall>fp off. GetFSMLocation (fsm h) t = Inr (fp, off) \<and> fetchable b fp \<and> fp \<noteq> t \<longrightarrow>
            pages b' fp ! unat off = BytesToCategory (GetFreeSpace (pages b' t)))"
  using assms
  by (auto simp: finish_insert_def Let_def UpdateFreeSpace_def FetchPage_def WritePage_def
      split: sum.splits if_splits prod.splits)

lemma HeapFile_InsertRecord_Inr:
  assumes "HeapFile_InsertRecord h bpm doc = Inr res"
  shows "\<exists>hx bx t p s. finish_insert hx bx t p s = Inr res \<and> fsm hx = fsm h \<and>
           fetchable bx = fetchable bpm"
proof -
  let ?data = "Serialize doc"
  let ?len = "of_nat (length (Serialize doc)) :: 16 word"
  from assms obtain found where f: "FindPageWithSpace (fsm h) bpm (?len + 4) = Inr found"
    by (auto simp: HeapFile_InsertRecord_def Let_def split: sum.splits)
  from assms f obtain target h1 b1 where
    tg: "(if found = INVALID_PAGE_ID then AllocateNewPage h bpm else Inr (found, h, bpm)) = Inr (target, h1, b1)"
    by (auto simp: HeapFile_InsertRecord_def Let_def split: sum.splits prod.splits)
  have p1: "fsm h1 = fsm h \<and> fetchable b1 = fetchable bpm"
    using tg AllocateNewPage_preserves [of h bpm target h1 b1] by (auto split: if_splits)
  from assms f tg obtain page where fe: "FetchPage b1 target = Some page"
    by (auto simp: HeapFile_InsertRecord_def Let_def split: option.splits)
  from assms f tg fe obtain page' slot where i1: "InsertRecord page ?data ?len = Inr (page', slot)"
    by (auto simp: HeapFile_InsertRecord_def Let_def split: sum.splits)
  show ?thesis
  proof (cases "slot = - 1")
    case False
    with assms f tg fe i1 have "finish_insert h1 b1 target page' slot = Inr res"
      by (simp add: HeapFile_InsertRecord_def Let_def)
    with p1 show ?thesis by blast
  next
    case True
    with assms f tg fe i1 obtain t2 h2 b2 where a2: "AllocateNewPage h1 b1 = Inr (t2, h2, b2)"
      by (auto simp: HeapFile_InsertRecord_def Let_def split: sum.splits prod.splits)
    from AllocateNewPage_preserves [OF a2] p1
    have p2: "fsm h2 = fsm h \<and> fetchable b2 = fetchable bpm" by simp
    from assms f tg fe i1 True a2 obtain page2 where fe2: "FetchPage b2 t2 = Some page2"
      by (auto simp: HeapFile_InsertRecord_def Let_def split: option.splits)
    from assms f tg fe i1 True a2 fe2 obtain page2' slot2 where
      i2: "InsertRecord page2 ?data ?len = Inr (page2', slot2)"
      by (auto simp: HeapFile_InsertRecord_def Let_def split: sum.splits)
    from assms f tg fe i1 True a2 fe2 i2 have "finish_insert h2 b2 t2 page2' slot2 = Inr res"
      by (simp add: HeapFile_InsertRecord_def Let_def split: if_splits)
    with p2 show ?thesis by blast
  qed
qed

text \<open>
  The paths of \<open>HeapFile::InsertRecord\<close> once the first slotted insert has returned. The
  call asks the free-space map for a page with room for \<open>record_len + 4\<close> bytes (both
  \<open>uint16_t\<close>). When the slotted insert on the target
  page stores the record, the call ends in \<open>finish_insert\<close> on that page. When it returns
  \<open>-1\<close>, the call allocates one new page and retries once: a second \<open>-1\<close> is the
  error "Record too large for a single page", a success ends in \<open>finish_insert\<close> on the
  new page. After every successful insert the free-space-map entry of the returned page
  is the category of the free space that page then has.
\<close>

lemma HeapFile_InsertRecord_paths:
  assumes find: "FindPageWithSpace (fsm h) bpm (of_nat (length (Serialize doc)) + 4) = Inr found"
    and tgt: "(if found = INVALID_PAGE_ID then AllocateNewPage h bpm else Inr (found, h, bpm))
                = Inr (target, h1, bpm1)"
    and fetch: "FetchPage bpm1 target = Some page"
    and ins: "InsertRecord page (Serialize doc) (of_nat (length (Serialize doc))) = Inr (page', slot)"
  shows "(slot \<noteq> - 1 \<longrightarrow>
            HeapFile_InsertRecord h bpm doc = finish_insert h1 bpm1 target page' slot) \<and>
         (slot = - 1 \<longrightarrow>
            HeapFile_InsertRecord h bpm doc =
              (case AllocateNewPage h1 bpm1 of
                 Inl e \<Rightarrow> Inl e
               | Inr (target2, h2, bpm2) \<Rightarrow>
                   (case FetchPage bpm2 target2 of
                      None \<Rightarrow> Inl (RuntimeError ''HeapFile: Failed to fetch new page'')
                    | Some page2 \<Rightarrow>
                        (case InsertRecord page2 (Serialize doc) (of_nat (length (Serialize doc))) of
                           Inl e \<Rightarrow> Inl e
                         | Inr (page2', slot2) \<Rightarrow>
                             if slot2 = - 1
                             then Inl (RuntimeError ''HeapFile: Record too large for a single page'')
                             else finish_insert h2 bpm2 target2 page2' slot2)))) \<and>
         (\<forall>rid h' bpm'. HeapFile_InsertRecord h bpm doc = Inr (rid, h', bpm') \<longrightarrow>
            (\<forall>fp off. GetFSMLocation (fsm h) (page_id rid) = Inr (fp, off) \<and> fetchable bpm fp \<and>
                      fp \<noteq> page_id rid \<longrightarrow>
               pages bpm' fp ! unat off = BytesToCategory (GetFreeSpace (pages bpm' (page_id rid)))))"
proof (intro conjI impI allI)
  assume "slot \<noteq> - 1"
  with find tgt fetch ins
  show "HeapFile_InsertRecord h bpm doc = finish_insert h1 bpm1 target page' slot"
    by (simp add: HeapFile_InsertRecord_def Let_def)
next
  assume "slot = - 1"
  with find tgt fetch ins
  show "HeapFile_InsertRecord h bpm doc =
              (case AllocateNewPage h1 bpm1 of
                 Inl e \<Rightarrow> Inl e
               | Inr (target2, h2, bpm2) \<Rightarrow>
                   (case FetchPage bpm2 target2 of
                      None \<Rightarrow> Inl (RuntimeError ''HeapFile: Failed to fetch new page'')
                    | Some page2 \<Rightarrow>
                        (case InsertRecord page2 (Serialize doc) (of_nat (length (Serialize doc))) of
                           Inl e \<Rightarrow> Inl e
                         | Inr (page2', slot2) \<Rightarrow>
                             if slot2 = - 1
                             then Inl (RuntimeError ''HeapFile: Record too large for a single page'')
                             else finish_insert h2 bpm2 target2 page2' slot2)))"
    by (simp add: HeapFile_InsertRecord_def Let_def)
next
  fix rid h' bpm' fp off
  assume r: "HeapFile_InsertRecord h bpm doc = Inr (rid, h', bpm')"
    and loc: "GetFSMLocation (fsm h) (page_id rid) = Inr (fp, off) \<and> fetchable bpm fp \<and> fp \<noteq> page_id rid"
  from HeapFile_InsertRecord_Inr [OF r] obtain hx bx t p s where
    fi: "finish_insert hx bx t p s = Inr (rid, h', bpm')" and pr: "fsm hx = fsm h" "fetchable bx = fetchable bpm"
    by blast
  from finish_insert_post [OF fi] have rid: "rid = \<lparr>page_id = t, slot_id = s\<rparr>"
    and post: "\<And>fp off. GetFSMLocation (fsm hx) t = Inr (fp, off) \<and> fetchable bx fp \<and> fp \<noteq> t \<Longrightarrow>
            pages bpm' fp ! unat off = BytesToCategory (GetFreeSpace (pages bpm' t))"
    by blast+
  from rid have "page_id rid = t" by simp
  with loc pr post [of fp off]
  show "pages bpm' fp ! unat off = BytesToCategory (GetFreeSpace (pages bpm' (page_id rid)))"
    by simp
qed

lemma find9_stale: "FindPageWithSpace example_fsm stale_pool 9 = Inr 2"
  by (simp add: FindPageWithSpace_def stale_pool_def example_pool_def example_fsm_def example_fsm_page_def
      FreeSpaceMap_new_def FetchPage_def BytesToCategory_def GRANULARITY_def fsm_scan.simps nth_append)

lemma ins_full: "InsertRecord full_page [5, 0, 0, 0, 0] 5 = Inr (full_page, - 1)"
  by (simp add: InsertRecord_def reserve_record_def find_free_slot.simps full_page_def page_eval Let_def)

lemma Init_zero: "Init (replicate 4096 0) 4096 = Inr empty_page"
  by (simp add: Init_def empty_page_def page_eval Let_def replicate_add [symmetric])

lemma GetFreeSpace_empty: "GetFreeSpace empty_page = 4088"
  by (simp add: GetFreeSpace_def empty_page_def page_eval)

lemma GetFreeSpace_page_empty_doc: "GetFreeSpace page_empty_doc = 4079"
  by (simp add: GetFreeSpace_def page_empty_doc_def page_eval)

lemma loc3: "GetFSMLocation example_fsm 3 = Inr (1, 3)"
  by (simp add: GetFSMLocation_def example_fsm_def FreeSpaceMap_new_def c_div_def c_mod_def)

lemma cat4088: "BytesToCategory 4088 = 255"
  by (simp add: BytesToCategory_def GRANULARITY_def Let_def)

lemma cat4079: "BytesToCategory 4079 = 254"
  by (simp add: BytesToCategory_def GRANULARITY_def Let_def)

lemma length_example_fsm_page: "length example_fsm_page = 4096"
  by (simp add: example_fsm_page_def)

lemma alloc_stale: "AllocateNewPage example_heap stale_pool =
    Inr (3, example_heap\<lparr>max_page_id := 3\<rparr>, pool_after_alloc)"
  apply (simp add: AllocateNewPage_def NewPage_def stale_pool_def example_pool_def PAGE_SIZE_def Init_zero
      WritePage_def Let_def GetFreeSpace_empty RegisterNewPage_def UpdateFreeSpace_def example_heap_def HeapFile_new_def loc3 FetchPage_def cat4088 length_example_fsm_page pool_after_alloc_def)
  done

lemma heap_ins_stale:
  "(case AllocateNewPage example_heap stale_pool of
                 Inl e \<Rightarrow> Inl e
               | Inr (target2, h2, bpm2) \<Rightarrow>
                   (case FetchPage bpm2 target2 of
                      None \<Rightarrow> Inl (RuntimeError ''HeapFile: Failed to fetch new page'')
                    | Some page2 \<Rightarrow>
                        (case InsertRecord page2 (Serialize []) (of_nat (length (Serialize []))) of
                           Inl e \<Rightarrow> Inl e
                         | Inr (page2', slot2) \<Rightarrow>
                             if slot2 = - 1
                             then Inl (RuntimeError ''HeapFile: Record too large for a single page'')
                             else finish_insert h2 bpm2 target2 page2' slot2)))
   = Inr (\<lparr>page_id = 3, slot_id = 0\<rparr>, example_heap\<lparr>max_page_id := 3\<rparr>,
          pool_after_alloc\<lparr>pages := (pages pool_after_alloc)(3 := page_empty_doc, 1 := example_fsm_page[3 := 254])\<rparr>)"
  apply (simp add: alloc_stale)
  apply (simp add: FetchPage_def pool_after_alloc_def stale_pool_def example_pool_def Serialize_empty
      ins_slotted [simplified])
  apply (simp add: finish_insert_def Let_def WritePage_def GetFreeSpace_page_empty_doc UpdateFreeSpace_def
       example_heap_def HeapFile_new_def loc3 FetchPage_def length_example_fsm_page cat4079)
  done

lemma HeapFile_InsertRecord_stale_entry:
  "FindPageWithSpace (fsm example_heap) stale_pool (of_nat (length (Serialize [])) + 4) = Inr 2 \<and>
   FetchPage stale_pool 2 = Some full_page \<and>
   InsertRecord full_page (Serialize []) (of_nat (length (Serialize []))) = Inr (full_page, - 1) \<and>
   HeapFile_InsertRecord example_heap stale_pool [] =
     Inr (\<lparr>page_id = 3, slot_id = 0\<rparr>, example_heap\<lparr>max_page_id := 3\<rparr>,
          pool_after_alloc\<lparr>pages := (pages pool_after_alloc)
             (3 := page_empty_doc, 1 := example_fsm_page[3 := 254])\<rparr>) \<and>
   BytesToCategory (GetFreeSpace page_empty_doc) = 254"
proof -
  have f: "FindPageWithSpace (fsm example_heap) stale_pool (of_nat (length (Serialize [])) + 4) = Inr 2"
    using find9_stale by (simp add: Serialize_empty example_heap_def HeapFile_new_def)
  have t: "(if (2 :: page_id_t) = INVALID_PAGE_ID then AllocateNewPage example_heap stale_pool
            else Inr (2, example_heap, stale_pool)) = Inr (2, example_heap, stale_pool)"
    by (simp add: INVALID_PAGE_ID_def)
  have fe: "FetchPage stale_pool 2 = Some full_page"
    by (simp add: FetchPage_def stale_pool_def example_pool_def)
  have i: "InsertRecord full_page (Serialize []) (of_nat (length (Serialize []))) = Inr (full_page, - 1)"
    using ins_full by (simp add: Serialize_empty)
  from HeapFile_InsertRecord_paths [OF f t fe i] heap_ins_stale
  have "HeapFile_InsertRecord example_heap stale_pool [] =
     Inr (\<lparr>page_id = 3, slot_id = 0\<rparr>, example_heap\<lparr>max_page_id := 3\<rparr>,
          pool_after_alloc\<lparr>pages := (pages pool_after_alloc)
             (3 := page_empty_doc, 1 := example_fsm_page[3 := 254])\<rparr>)"
    by (simp add: Serialize_empty)
  with f fe i show ?thesis
    by (simp add: GetFreeSpace_page_empty_doc cat4079)
qed

lemma GetRecord_empty_page_7: "GetRecord empty_page 7 = Inr None"
  by (simp add: GetRecord_def empty_page_def page_eval)

lemma GetRecord_page_empty_doc: "GetRecord page_empty_doc 0 = Inr (Some [5, 0, 0, 0, 0])"
  by (simp add: GetRecord_def page_empty_doc_def page_eval)

lemma HeapFile_UpdateRecord_out_of_range:
  "HeapFile_UpdateRecord example_heap example_pool \<lparr>page_id = 2, slot_id = 7\<rparr> [] =
   HeapFile_InsertRecord example_heap example_pool []"
proof -
  have "FetchPage example_pool 2 = Some empty_page"
    by (simp add: FetchPage_def example_pool_def)
  then show ?thesis
    by (simp add: HeapFile_UpdateRecord_def Serialize_empty Let_def upd_slotted heap_del)
qed

lemma GetRecord_page_tombstone: "GetRecord page_tombstone 0 = Inr None"
  by (simp add: GetRecord_def page_tombstone_def page_eval)

lemma upd_tombstone: "UpdateRecord page_tombstone 0 [5, 0, 0, 0, 0] 5 = Inr (page_tombstone, False)"
  by (simp add: UpdateRecord_def page_tombstone_def page_eval)

lemma del_tombstone: "DeleteRecord page_tombstone 0 = Inr (page_tombstone, False)"
  by (simp add: DeleteRecord_def page_tombstone_def page_eval)

lemma heap_del_tombstone:
  "HeapFile_DeleteRecord example_heap tombstone_pool \<lparr>page_id = 2, slot_id = 0\<rparr> = Inr (False, tombstone_pool)"
  by (simp add: HeapFile_DeleteRecord_def tombstone_pool_def example_pool_def FetchPage_def del_tombstone)

lemma ins_tombstone: "InsertRecord page_tombstone [5, 0, 0, 0, 0] 5 = Inr (page_tombstone_reused, 0)"
  by (simp add: InsertRecord_def reserve_record_def find_free_slot.simps page_tombstone_def page_tombstone_reused_def
      page_eval Let_def)

lemma find9_tombstone: "FindPageWithSpace example_fsm tombstone_pool 9 = Inr 2"
  by (simp add: FindPageWithSpace_def tombstone_pool_def example_pool_def example_fsm_def example_fsm_page_def
      FreeSpaceMap_new_def FetchPage_def BytesToCategory_def GRANULARITY_def fsm_scan.simps nth_append)

lemma GetRecord_page_tombstone_reused: "GetRecord page_tombstone_reused 0 = Inr (Some [5, 0, 0, 0, 0])"
  by (simp add: GetRecord_def page_tombstone_reused_def page_eval)

lemma GetFreeSpace_page_tombstone_reused: "GetFreeSpace page_tombstone_reused = 4076"
  by (simp add: GetFreeSpace_def page_tombstone_reused_def page_eval)

lemma loc2: "GetFSMLocation example_fsm 2 = Inr (1, 2)"
  by (simp add: GetFSMLocation_def example_fsm_def FreeSpaceMap_new_def c_div_def c_mod_def)

lemma heap_ins_tombstone: "case HeapFile_InsertRecord example_heap tombstone_pool [] of
     Inl e \<Rightarrow> False
   | Inr (rid, h, bpm) \<Rightarrow> rid = \<lparr>page_id = 2, slot_id = 0\<rparr> \<and> pages bpm 2 = page_tombstone_reused"
  apply (simp add: HeapFile_InsertRecord_def Serialize_empty Let_def)
  apply (simp add: find9_tombstone [simplified] example_heap_def HeapFile_new_def INVALID_PAGE_ID_def)
  apply (simp add: FetchPage_def tombstone_pool_def example_pool_def ins_tombstone [simplified] finish_insert_def Let_def
      UpdateFreeSpace_def loc2 WritePage_def length_example_fsm_page)
  done

lemma HeapFile_UpdateRecord_tombstone:
  "HeapFile_UpdateRecord example_heap tombstone_pool \<lparr>page_id = 2, slot_id = 0\<rparr> [] =
   HeapFile_InsertRecord example_heap tombstone_pool []"
proof -
  have "FetchPage tombstone_pool 2 = Some page_tombstone"
    by (simp add: FetchPage_def tombstone_pool_def example_pool_def)
  then show ?thesis
    by (simp add: HeapFile_UpdateRecord_def Serialize_empty Let_def upd_tombstone heap_del_tombstone)
qed


text \<open>
  C2. \<open>HeapFile::UpdateRecord\<close> on a record id that names no record (slot 7 of a page
  with no slots; the tombstoned slot 0) is claimed to fail and to leave the heap file
  unchanged, as \<open>DeleteRecord\<close> does. The code takes the \<open>false\<close> of the slotted update
  for "does not fit", ignores the \<open>false\<close> of the delete and inserts the document: the
  call returns a valid record id and the page now holds a record.
\<close>

theorem HeapFile_UpdateRecord_missing_rid_inserts:
  "GetRecord (pages example_pool 2) 7 = Inr None \<and>
   HeapFile_DeleteRecord example_heap example_pool \<lparr>page_id = 2, slot_id = 7\<rparr>
     = Inr (False, example_pool) \<and>
   (case HeapFile_UpdateRecord example_heap example_pool \<lparr>page_id = 2, slot_id = 7\<rparr> [] of
      Inl e \<Rightarrow> False
    | Inr (rid, h, bpm) \<Rightarrow>
        rid = \<lparr>page_id = 2, slot_id = 0\<rparr> \<and> pages bpm 2 \<noteq> pages example_pool 2 \<and>
        GetRecord (pages bpm 2) 0 = Inr (Some (Serialize []))) \<and>
   GetRecord (pages tombstone_pool 2) 0 = Inr None \<and>
   HeapFile_DeleteRecord example_heap tombstone_pool \<lparr>page_id = 2, slot_id = 0\<rparr>
     = Inr (False, tombstone_pool) \<and>
   (case HeapFile_UpdateRecord example_heap tombstone_pool \<lparr>page_id = 2, slot_id = 0\<rparr> [] of
      Inl e \<Rightarrow> False
    | Inr (rid, h, bpm) \<Rightarrow>
        rid = \<lparr>page_id = 2, slot_id = 0\<rparr> \<and> pages bpm 2 \<noteq> pages tombstone_pool 2 \<and>
        GetRecord (pages bpm 2) 0 = Inr (Some (Serialize [])))"
proof -
  have a: "pages example_pool 2 = empty_page" "pages tombstone_pool 2 = page_tombstone"
    by (simp_all add: example_pool_def tombstone_pool_def)
  have ne: "page_empty_doc \<noteq> empty_page" "page_tombstone_reused \<noteq> page_tombstone"
    by (simp_all add: page_empty_doc_def empty_page_def page_tombstone_reused_def page_tombstone_def)
  show ?thesis
    using heap_ins heap_ins_tombstone ne
    by (auto simp: a GetRecord_empty_page_7 heap_del HeapFile_UpdateRecord_out_of_range
        GetRecord_page_tombstone heap_del_tombstone HeapFile_UpdateRecord_tombstone
        GetRecord_page_empty_doc GetRecord_page_tombstone_reused Serialize_empty
        split: sum.splits)
qed

section \<open>Heap file: documents of 65532 bytes and more\<close>

lemma Serialize_truncated_document:
  "Serialize truncated_document = [5, 0, 1, 0, 2] @ [97, 0, 249, 255, 0, 0] @ replicate 65528 0 @ [0, 0]"
  by (simp add: truncated_document_def Serialize.simps AppendString_def AppendCString_def le32_def)

lemma Serialize_wrapping_document:
  "Serialize wrapping_document = [254, 255, 0, 0, 2] @ [97, 0, 242, 255, 0, 0] @ replicate 65521 0 @ [0, 0]"
  by (simp add: wrapping_document_def Serialize.simps AppendString_def AppendCString_def le32_def)

lemma ins_truncated: "InsertRecord empty_page ([5, 0, 1, 0, 2] @ rest) 5 = Inr (page_truncated_doc, 0)"
  by (simp add: InsertRecord_def reserve_record_def find_free_slot.simps empty_page_def page_truncated_doc_def page_eval Let_def)

lemma ins_wrapping: "length record = 65534 \<Longrightarrow> InsertRecord empty_page record 65534 = Inl UndefinedBehaviour"
  by (simp add: InsertRecord_def reserve_record_def find_free_slot.simps empty_page_def page_eval Let_def)

lemma find2: "FindPageWithSpace example_fsm example_pool 2 = Inr 2"
  by (simp add: FindPageWithSpace_def example_pool_def example_fsm_def example_fsm_page_def
      FreeSpaceMap_new_def FetchPage_def BytesToCategory_def GRANULARITY_def fsm_scan.simps nth_append)

lemma GetRecord_page_truncated_doc: "GetRecord page_truncated_doc 0 = Inr (Some [5, 0, 1, 0, 2])"
  by (simp add: GetRecord_def page_truncated_doc_def page_eval)

lemma GetFreeSpace_page_truncated_doc: "GetFreeSpace page_truncated_doc = 4079"
  by (simp add: GetFreeSpace_def page_truncated_doc_def page_eval)

lemma record_len_truncated: "(of_nat (length (Serialize truncated_document)) :: 16 word) = 5"
  by (simp add: Serialize_truncated_document)

lemma record_len_wrapping: "(of_nat (length (Serialize wrapping_document)) :: 16 word) = 65534"
  by (simp add: Serialize_wrapping_document)

lemma ins_truncated_document:
  "InsertRecord empty_page (Serialize truncated_document) 5 = Inr (page_truncated_doc, 0)"
  unfolding Serialize_truncated_document by (rule ins_truncated)

lemma ins_wrapping_document:
  "InsertRecord empty_page (Serialize wrapping_document) 65534 = Inl UndefinedBehaviour"
  by (rule ins_wrapping) (simp add: Serialize_wrapping_document)

lemma heap_ins_truncated:
  "case HeapFile_InsertRecord example_heap example_pool truncated_document of
     Inl e \<Rightarrow> False
   | Inr (rid, h, bpm) \<Rightarrow> rid = \<lparr>page_id = 2, slot_id = 0\<rparr> \<and> pages bpm 2 = page_truncated_doc"
  apply (simp add: HeapFile_InsertRecord_def Let_def record_len_truncated)
  apply (simp add: find9 [simplified] example_heap_def HeapFile_new_def INVALID_PAGE_ID_def)
  apply (simp add: FetchPage_def example_pool_def record_len_truncated ins_truncated_document [simplified] finish_insert_def Let_def
      UpdateFreeSpace_def GetFSMLocation_def example_fsm_def FreeSpaceMap_new_def c_div_def c_mod_def WritePage_def example_fsm_page_def GetFreeSpace_page_truncated_doc)
  done

lemma total_needed_wrapping: "(65538 :: 16 word) = 2"
  by simp

lemma find65538: "FindPageWithSpace example_fsm example_pool 65538 = Inr 2"
  unfolding total_needed_wrapping by (rule find2)

lemma heap_ins_wrapping:
  "HeapFile_InsertRecord example_heap example_pool wrapping_document = Inl UndefinedBehaviour"
  apply (simp add: HeapFile_InsertRecord_def Let_def record_len_wrapping)
  apply (simp add: find65538 [simplified] example_heap_def HeapFile_new_def INVALID_PAGE_ID_def)
  apply (simp add: FetchPage_def example_pool_def record_len_wrapping ins_wrapping_document [simplified])
  done

text \<open>
  C7 fails for long documents. The document \<open>{a: s}\<close> with a string \<open>s\<close> of 65528 zero
  bytes serializes to 65541 bytes; \<open>record_len = static_cast<uint16_t>(data.size())\<close> is
  5, so the insert asks the free-space map for 9 bytes, stores the first five bytes
  \<open>05 00 01 00 02\<close> of the record in slot 0 of page 2 and returns that record id: no
  "Record too large" error, and not the document on the page. With a string of 65521
  bytes the serialized form has 65534 bytes, \<open>total_needed = record_len + 4\<close> wraps to 2,
  and the slotted insert overruns the frame of page 2 (undefined behaviour).
\<close>

theorem HeapFile_InsertRecord_truncates_length:
  "length (Serialize truncated_document) = 65541 \<and>
   (case HeapFile_InsertRecord example_heap example_pool truncated_document of
      Inl e \<Rightarrow> False
    | Inr (rid, h, bpm) \<Rightarrow>
        rid = \<lparr>page_id = 2, slot_id = 0\<rparr> \<and> GetRecord (pages bpm 2) 0 = Inr (Some [5, 0, 1, 0, 2])) \<and>
   length (Serialize wrapping_document) = 65534 \<and>
   HeapFile_InsertRecord example_heap example_pool wrapping_document = Inl UndefinedBehaviour"
proof -
  have "length (Serialize truncated_document) = 65541"
    by (simp add: Serialize_truncated_document)
  moreover have "length (Serialize wrapping_document) = 65534"
    by (simp add: Serialize_wrapping_document)
  moreover have "case HeapFile_InsertRecord example_heap example_pool truncated_document of
      Inl e \<Rightarrow> False
    | Inr (rid, h, bpm) \<Rightarrow>
        rid = \<lparr>page_id = 2, slot_id = 0\<rparr> \<and> GetRecord (pages bpm 2) 0 = Inr (Some [5, 0, 1, 0, 2])"
    using heap_ins_truncated
    by (auto simp: GetRecord_page_truncated_doc split: sum.splits)
  ultimately show ?thesis
    using heap_ins_wrapping by simp
qed

section \<open>Write-ahead log: reading the log back\<close>

lemma ser_ex: "LogRecord_Serialize example_record =
   [46,0,0,0, 1,0,0,0,0,0,0,0, 100,0,0,0,0,0,0,0, 0,0,0,0,0,0,0,0, 3,
    5,0,0,0, 0,0, 0,0,0,0, 3,0,0,0, 1,2,3]"
  by (simp add: LogRecord_Serialize_def example_record_def le64_def le32_def le16_def Let_def)

lemma err_bind_simps [simp]: "err_bind (Inr x) f = f x" "err_bind (Inl e) f = Inl e"
  by (simp_all add: err_bind_def)

lemma read_bytes_in: "off + n \<le> length data \<Longrightarrow> read_bytes data off n = Inr (take n (drop off data))"
  by (simp add: read_bytes_def)

lemma read_bytes_out: "length data < off + n \<Longrightarrow> read_bytes data off n = Inl UndefinedBehaviour"
  by (simp add: read_bytes_def)

lemma deser_ex: "LogRecord_Deserialize (LogRecord_Serialize example_record @ rest) 0 = Inr (example_record, 46)"
  unfolding ser_ex
  by (simp add: LogRecord_Deserialize_def read_bytes_in Let_def
      example_record_def LogRecordType_of_byte_def)

lemma read_ex: "ReadAllRecords (LogRecord_Serialize example_record) = Inr [example_record]"
  using deser_ex [of "[]"]
  by (simp add: ReadAllRecords_def ReadAllRecords_loop.simps [of _ 0] ReadAllRecords_loop.simps [of _ 46] ser_ex)

lemma deser_trunc: "LogRecord_Deserialize (LogRecord_Serialize example_record @ take 20 (LogRecord_Serialize example_record)) 46 = Inl UndefinedBehaviour"
  unfolding ser_ex
  by (simp add: LogRecord_Deserialize_def read_bytes_in read_bytes_out Let_def)

lemma read_ex_trunc: "ReadAllRecords (LogRecord_Serialize example_record @ take 20 (LogRecord_Serialize example_record)) = Inl UndefinedBehaviour"
  using deser_ex [of "take 20 (LogRecord_Serialize example_record)"] deser_trunc
  by (simp add: ReadAllRecords_def ReadAllRecords_loop.simps [of _ 0] ReadAllRecords_loop.simps [of _ 46] ser_ex)

lemma read_ex_short_tail: "ReadAllRecords (LogRecord_Serialize example_record @ [46, 0, 0]) = Inr [example_record]"
  using deser_ex [of "[46, 0, 0]"]
  by (simp add: ReadAllRecords_def ReadAllRecords_loop.simps [of _ 0] ReadAllRecords_loop.simps [of _ 46] ser_ex
      LogRecord_Deserialize_def)

lemma read4: "ReadAllRecords [46, 0, 0, 0] = Inl UndefinedBehaviour"
  by (simp add: ReadAllRecords_def ReadAllRecords_loop.simps LogRecord_Deserialize_def read_bytes_out)

text \<open>
  C9. \<open>ReadAllRecords\<close> is claimed to stop at the first truncated record without ever
  reading past the end of the log buffer. \<open>Deserialize\<close> checks only the four bytes of
  \<open>total_size\<close>: a tail of fewer than four bytes is tolerated, but a record cut anywhere
  later (here after 20 of its 46 bytes, or a bare size field) makes it read past the
  end of the buffer.
\<close>

theorem ReadAllRecords_reads_past_end:
  "ReadAllRecords (LogRecord_Serialize example_record @ take 20 (LogRecord_Serialize example_record))
     = Inl UndefinedBehaviour \<and>
   ReadAllRecords [46, 0, 0, 0] = Inl UndefinedBehaviour \<and>
   ReadAllRecords (LogRecord_Serialize example_record @ [46, 0, 0]) = Inr [example_record]"
  using read_ex_trunc read4 read_ex_short_tail by simp

section \<open>Recovery: analysis and redo\<close>















section \<open>Lock manager: what a granted EXCLUSIVE excludes\<close>

lemma CanGrantLock_SHARED_iff:
  "CanGrantLock q SHARED \<longleftrightarrow> \<not> (\<exists>r\<in>set q. granted r \<and> req_mode r = EXCLUSIVE)"
  by (induction q) auto

lemma queue_invariant_iff:
  "queue_invariant q \<longleftrightarrow>
     (\<forall>r1\<in>set q. \<forall>r2\<in>set q. granted r1 \<and> granted r2 \<and> req_mode r1 = EXCLUSIVE
        \<longrightarrow> req_txn_id r1 = req_txn_id r2)"
  by (auto simp: queue_invariant_def list_all_iff)

lemma others_granted_iff:
  "others_granted q t \<longleftrightarrow> (\<exists>r\<in>set q. req_txn_id r \<noteq> t \<and> granted r)"
  by (simp add: others_granted_def list_ex_iff)

lemma queue_invariant_Nil [simp]: "queue_invariant []"
  by (simp add: queue_invariant_def)

lemma queue_invariant_append:
  "queue_invariant q \<Longrightarrow> queue_invariant (q @ [\<lparr>req_txn_id = t, req_mode = m, granted = False\<rparr>])"
  by (auto simp: queue_invariant_iff)

lemma queue_invariant_filter: "queue_invariant q \<Longrightarrow> queue_invariant (filter P q)"
  by (auto simp: queue_invariant_iff)

lemma in_set_updateD: "x \<in> set (q[i := y]) \<Longrightarrow> x = y \<or> x \<in> set q"
  using set_update_subset_insert [of q i y] by auto

lemma queue_invariant_grant:
  assumes inv: "queue_invariant q" and mg: "may_grant q i"
  shows "queue_invariant (q[i := (q ! i)\<lparr>granted := True\<rparr>])"
proof (cases "req_mode (q ! i)")
  case SHARED
  with mg have nox: "\<forall>r\<in>set q. \<not> (granted r \<and> req_mode r = EXCLUSIVE)"
    by (auto simp: may_grant_def CanGrantLock_SHARED_iff)
  have "\<forall>r\<in>set (q[i := (q ! i)\<lparr>granted := True\<rparr>]). \<not> (granted r \<and> req_mode r = EXCLUSIVE)"
  proof
    fix r assume "r \<in> set (q[i := (q ! i)\<lparr>granted := True\<rparr>])"
    then have "r = (q ! i)\<lparr>granted := True\<rparr> \<or> r \<in> set q" by (rule in_set_updateD)
    with nox SHARED show "\<not> (granted r \<and> req_mode r = EXCLUSIVE)" by auto
  qed
  then show ?thesis by (auto simp: queue_invariant_iff)
next
  case EXCLUSIVE
  define t where "t = req_txn_id (q ! i)"
  from mg EXCLUSIVE have own: "\<forall>r\<in>set q. granted r \<longrightarrow> req_txn_id r = t"
    by (auto simp: may_grant_def others_granted_iff t_def)
  have "\<forall>r\<in>set (q[i := (q ! i)\<lparr>granted := True\<rparr>]). granted r \<longrightarrow> req_txn_id r = t"
  proof
    fix r assume "r \<in> set (q[i := (q ! i)\<lparr>granted := True\<rparr>])"
    then have "r = (q ! i)\<lparr>granted := True\<rparr> \<or> r \<in> set q" by (rule in_set_updateD)
    with own show "granted r \<longrightarrow> req_txn_id r = t" by (auto simp: t_def)
  qed
  then show ?thesis by (auto simp: queue_invariant_iff)
qed

lemma queue_invariant_upgrade:
  assumes "req_txn_id (q ! i) = t" and "\<not> others_granted q t"
  shows "queue_invariant (q[i := (q ! i)\<lparr>req_mode := EXCLUSIVE\<rparr>])"
proof -
  from assms have own: "\<forall>r\<in>set q. granted r \<longrightarrow> req_txn_id r = t"
    by (auto simp: others_granted_iff)
  have "\<forall>r\<in>set (q[i := (q ! i)\<lparr>req_mode := EXCLUSIVE\<rparr>]). granted r \<longrightarrow> req_txn_id r = t"
  proof
    fix r assume "r \<in> set (q[i := (q ! i)\<lparr>req_mode := EXCLUSIVE\<rparr>])"
    then have "r = (q ! i)\<lparr>req_mode := EXCLUSIVE\<rparr> \<or> r \<in> set q" by (rule in_set_updateD)
    with own assms(1) show "granted r \<longrightarrow> req_txn_id r = t" by auto
  qed
  then show ?thesis by (auto simp: queue_invariant_iff)
qed

lemma queue_at_table_upd [simp]:
  "queue_at (lm\<lparr>lock_table := (lock_table lm)(key \<mapsto> q)\<rparr>) k = (if k = key then q else queue_at lm k)"
  by (simp add: queue_at_def)

lemma queue_at_grant_at:
  "queue_at (grant_at lm key i) k =
     (if k = key then (queue_at lm key)[i := (queue_at lm key ! i)\<lparr>granted := True\<rparr>]
      else queue_at lm k)"
  by (simp add: grant_at_def Let_def queue_at_def)

lemma lock_invariantD: "lock_invariant lm \<Longrightarrow> queue_invariant (queue_at lm key)"
  unfolding lock_invariant_def by blast

lemma lock_invariantI: "(\<And>key. queue_invariant (queue_at lm key)) \<Longrightarrow> lock_invariant lm"
  unfolding lock_invariant_def by blast

lemma lock_invariant_grant_at:
  "lock_invariant lm \<Longrightarrow> may_grant (queue_at lm key) i \<Longrightarrow> lock_invariant (grant_at lm key i)"
  by (rule lock_invariantI) (simp add: queue_at_grant_at queue_invariant_grant lock_invariantD)

lemma lock_invariant_enqueue:
  "lock_invariant lm \<Longrightarrow>
   lock_invariant (lm\<lparr>lock_table := (lock_table lm)(key \<mapsto>
       queue_at lm key @ [\<lparr>req_txn_id = t, req_mode = m, granted = False\<rparr>])\<rparr>)"
  by (rule lock_invariantI) (simp add: queue_invariant_append lock_invariantD)

lemma lock_invariant_touch:
  "lock_invariant lm \<Longrightarrow> lock_invariant (lm\<lparr>lock_table := (lock_table lm)(key \<mapsto> queue_at lm key)\<rparr>)"
  by (rule lock_invariantI) (simp add: lock_invariantD)

lemma lock_invariant_LockShared: "lock_invariant lm \<Longrightarrow> lock_invariant (LockShared lm txn key)"
  unfolding LockShared_def Let_def
  by (auto intro: lock_invariant_grant_at lock_invariant_enqueue lock_invariant_touch)

lemma lock_invariant_LockExclusive: "lock_invariant lm \<Longrightarrow> lock_invariant (LockExclusive lm txn key)"
  unfolding LockExclusive_def Let_def
  by (auto intro: lock_invariant_grant_at lock_invariant_enqueue lock_invariant_touch)

lemma lock_invariant_Wake: "lock_invariant lm \<Longrightarrow> lock_invariant (Wake lm key i)"
  by (simp add: Wake_def lock_invariant_grant_at)

lemma lock_invariant_upgrade_at: "lock_invariant lm \<Longrightarrow> lock_invariant (upgrade_at lm txn key i)"
  by (rule lock_invariantI) (simp add: upgrade_at_def Let_def queue_invariant_upgrade lock_invariantD)

lemma lock_invariant_LockUpgrade: "lock_invariant lm \<Longrightarrow> lock_invariant (LockUpgrade lm txn key)"
  by (auto simp: LockUpgrade_def lock_invariant_upgrade_at split: option.splits)

lemma queue_at_UnlockAll:
  "txn_locks lm txn = Some keys \<Longrightarrow>
   queue_at (UnlockAll lm txn) key =
     (if key \<in> keys then filter (\<lambda>r. req_txn_id r \<noteq> txn) (queue_at lm key) else queue_at lm key)"
  by (auto simp: UnlockAll_def queue_at_def Let_def split: option.splits)

lemma lock_invariant_UnlockAll: "lock_invariant lm \<Longrightarrow> lock_invariant (UnlockAll lm txn)"
proof (cases "txn_locks lm txn")
  case None
  assume "lock_invariant lm"
  with None show ?thesis by (simp add: UnlockAll_def)
next
  case (Some keys)
  assume "lock_invariant lm"
  then show ?thesis
    by (intro lock_invariantI) (simp add: queue_at_UnlockAll [OF Some] queue_invariant_filter lock_invariantD)
qed

lemma lock_invariant_step: "lock_invariant lm \<Longrightarrow> lock_invariant (lock_step lm ev)"
  by (cases ev)
    (simp_all add: lock_invariant_LockShared lock_invariant_LockExclusive lock_invariant_LockUpgrade
      lock_invariant_UnlockAll lock_invariant_Wake lock_invariant_upgrade_at)

lemma lock_invariant_new: "lock_invariant LockManager_new"
  by (rule lock_invariantI) (simp add: LockManager_new_def queue_at_def)

lemma lock_invariant_foldl: "lock_invariant lm \<Longrightarrow> lock_invariant (foldl lock_step lm evs)"
  by (induction evs arbitrary: lm) (simp_all add: lock_invariant_step)

lemma lock_invariant_lock_run:
  "lock_invariant (lock_run evs)"
  by (simp add: lock_run_def lock_invariant_foldl lock_invariant_new)

lemmas lock_eval = lock_run_def LockManager_new_def LockShared_def LockExclusive_def LockUpgrade_def
  UnlockAll_def Wake_def upgrade_at_def grant_at_def may_grant_def others_granted_def queue_at_def Let_def

lemma shared_then_exclusive:
  "queue_at (lock_run [CallLockShared 1 (5, 0), CallLockExclusive 1 (5, 0)]) (5, 0) =
     [\<lparr>req_txn_id = 1, req_mode = SHARED, granted = True\<rparr>,
      \<lparr>req_txn_id = 1, req_mode = EXCLUSIVE, granted = True\<rparr>]"
  by (simp add: lock_eval)

lemma writer_after_readers:
  "queue_at (lock_run [CallLockShared 1 (5, 0), CallLockShared 2 (5, 0), CallLockExclusive 3 (5, 0),
       CallUnlockAll 1, CallUnlockAll 2, WakeRequest (5, 0) 0]) (5, 0) =
     [\<lparr>req_txn_id = 3, req_mode = EXCLUSIVE, granted = True\<rparr>]"
  by (simp add: lock_eval)

lemma writer_waits:
  "queue_at (lock_run [CallLockShared 1 (5, 0), CallLockShared 2 (5, 0), CallLockExclusive 3 (5, 0),
       CallUnlockAll 1]) (5, 0) =
     [\<lparr>req_txn_id = 2, req_mode = SHARED, granted = True\<rparr>,
      \<lparr>req_txn_id = 3, req_mode = EXCLUSIVE, granted = False\<rparr>]"
  by (simp add: lock_eval)


text \<open>
  C5. In every state the lock manager can reach by calls of \<open>LockShared\<close>,
  \<open>LockExclusive\<close>, \<open>LockUpgrade\<close> and \<open>UnlockAll\<close> and by wake-ups of waiting
  requests, two granted requests on one resource, one of them EXCLUSIVE, belong to the
  same transaction: an EXCLUSIVE lock excludes every other transaction, while its
  holder may still hold its own earlier SHARED request on the resource.
\<close>

theorem lock_manager_invariant:
  assumes "r1 \<in> set (queue_at (lock_run evs) key)" and "r2 \<in> set (queue_at (lock_run evs) key)"
    and "granted r1" and "granted r2" and "req_mode r1 = EXCLUSIVE"
  shows "req_txn_id r1 = req_txn_id r2"
proof -
  have "queue_invariant (queue_at (lock_run evs) key)"
    by (rule lock_invariantD [OF lock_invariant_lock_run])
  with assms show ?thesis
    unfolding queue_invariant_iff by blast
qed

theorem lock_manager_invariant_witness:
  "\<lparr>req_txn_id = 1, req_mode = EXCLUSIVE, granted = True\<rparr>
     \<in> set (queue_at (lock_run [CallLockShared 1 (5, 0), CallLockExclusive 1 (5, 0)]) (5, 0)) \<and>
   \<lparr>req_txn_id = 1, req_mode = SHARED, granted = True\<rparr>
     \<in> set (queue_at (lock_run [CallLockShared 1 (5, 0), CallLockExclusive 1 (5, 0)]) (5, 0)) \<and>
   req_txn_id \<lparr>req_txn_id = 1, req_mode = EXCLUSIVE, granted = True\<rparr>
     = req_txn_id \<lparr>req_txn_id = (1 :: 64 word), req_mode = SHARED, granted = True\<rparr>"
proof -
  have a: "\<lparr>req_txn_id = 1, req_mode = EXCLUSIVE, granted = True\<rparr>
     \<in> set (queue_at (lock_run [CallLockShared 1 (5, 0), CallLockExclusive 1 (5, 0)]) (5, 0))"
    and b: "\<lparr>req_txn_id = 1, req_mode = SHARED, granted = True\<rparr>
     \<in> set (queue_at (lock_run [CallLockShared 1 (5, 0), CallLockExclusive 1 (5, 0)]) (5, 0))"
    by (simp_all add: shared_then_exclusive)
  from lock_manager_invariant [OF a b] a b show ?thesis by simp
qed

text \<open>
  The claim as it is written fails in the state after \<open>LockShared(1, r)\<close> and
  \<open>LockExclusive(1, r)\<close>, neither of which waits: transaction 1 then holds a granted
  SHARED and a granted EXCLUSIVE request on \<open>r\<close>.
\<close>

theorem lock_manager_shared_and_exclusive_counterexample:
  "\<not> spec_queue_invariant
       (queue_at (lock_run [CallLockShared 1 (5, 0), CallLockExclusive 1 (5, 0)]) (5, 0))"
  by (simp add: shared_then_exclusive spec_queue_invariant_def)

section \<open>B+ tree: what a written page decodes to\<close>

text \<open>
  The readers return what the writers wrote into a zeroed frame, the keys cut to their
  \<open>uint16_t\<close> length: \<open>written_leaf_node\<close> and \<open>written_internal_node\<close> are
  \<open>decode_node\<close> of the bytes that \<open>WriteLeafNode\<close> and \<open>WriteInternalNode\<close> leave in the
  frame, and undefined exactly where those are. A page never written, all zeros, decodes
  to an internal node without keys whose only child is page 0.
\<close>

lemma unat_key_len: "unat (of_nat (length k) :: 16 word) = key_len k"
  by (simp add: key_len_def unat_of_nat)

lemma min_key_len [simp]: "min (length k) (key_len k) = key_len k"
  by (simp add: key_len_def min_def)

lemma read_leaf_entries_written:
  "length keys \<le> length rids \<Longrightarrow>
   read_leaf_entries (pre @ leaf_entry_bytes keys rids @ rest) (length keys) (length pre) =
     Inr (map (\<lambda>k. take (key_len k) k) keys, take (length keys) rids)"
proof (induction keys arbitrary: rids pre)
  case Nil
  show ?case by (simp add: leaf_entry_bytes_def)
next
  case (Cons k ks)
  then obtain r rs where rids: "rids = r # rs" by (cases rids) auto
  with Cons.prems have le: "length ks \<le> length rs" by simp
  define entry where "entry = le16 (of_nat (length k)) @ take (key_len k) k @ le32 (page_id r) @ le16 (slot_id r)"
  define data where "data = pre @ entry @ leaf_entry_bytes ks rs @ rest"
  have data: "pre @ leaf_entry_bytes (k # ks) rids @ rest = data"
    by (simp add: data_def entry_def rids leaf_entry_bytes_def leaf_entry_def)
  have len_entry: "length entry = 2 + key_len k + 6" by (simp add: entry_def)
  have kl: "unat (le_word (take 2 (drop (length pre) data)) :: 16 word) = key_len k"
    by (simp add: data_def entry_def unat_key_len)
  have key: "take (key_len k) (drop (length pre + 2) data) = take (key_len k) k"
    by (simp add: data_def entry_def)
  have pid: "le_word (take 4 (drop (length pre + 2 + key_len k) data)) = page_id r"
    by (simp add: data_def entry_def)
  have sid: "le_word (take 2 (drop (length pre + 2 + key_len k + 4) data)) = slot_id r"
    by (simp add: data_def entry_def)
  have bound: "length pre + 2 + key_len k + 6 \<le> length data"
    by (simp add: data_def len_entry)
  have rest: "read_leaf_entries data (length ks) (length pre + 2 + key_len k + 6) =
      Inr (map (\<lambda>k. take (key_len k) k) ks, take (length ks) rs)"
    using Cons.IH [OF le, of "pre @ entry"] by (simp add: data_def len_entry ac_simps)
  show ?case
    unfolding data using bound kl key pid sid rest
    by (simp add: rids Let_def)
qed

lemma read_internal_entries_written:
  "length keys \<le> length children \<Longrightarrow>
   read_internal_entries (pre @ internal_entry_bytes keys children @ rest) (length keys) (length pre) =
     Inr (map (\<lambda>k. take (key_len k) k) keys, take (length keys) children)"
proof (induction keys arbitrary: children pre)
  case Nil
  show ?case by (simp add: internal_entry_bytes_def)
next
  case (Cons k ks)
  then obtain c cs where children: "children = c # cs" by (cases children) auto
  with Cons.prems have le: "length ks \<le> length cs" by simp
  define entry where "entry = le16 (of_nat (length k)) @ take (key_len k) k @ le32 c"
  define data where "data = pre @ entry @ internal_entry_bytes ks cs @ rest"
  have data: "pre @ internal_entry_bytes (k # ks) children @ rest = data"
    by (simp add: data_def entry_def children internal_entry_bytes_def internal_entry_def)
  have len_entry: "length entry = 2 + key_len k + 4" by (simp add: entry_def)
  have kl: "unat (le_word (take 2 (drop (length pre) data)) :: 16 word) = key_len k"
    by (simp add: data_def entry_def unat_key_len)
  have key: "take (key_len k) (drop (length pre + 2) data) = take (key_len k) k"
    by (simp add: data_def entry_def)
  have ch: "le_word (take 4 (drop (length pre + 2 + key_len k) data)) = c"
    by (simp add: data_def entry_def)
  have bound: "length pre + 2 + key_len k + 4 \<le> length data"
    by (simp add: data_def len_entry)
  have rest: "read_internal_entries data (length ks) (length pre + 2 + key_len k + 4) =
      Inr (map (\<lambda>k. take (key_len k) k) ks, take (length ks) cs)"
    using Cons.IH [OF le, of "pre @ entry"] by (simp add: data_def len_entry ac_simps)
  show ?case
    unfolding data using bound kl key ch rest
    by (simp add: children Let_def)
qed

lemma length_leaf_entry_bytes:
  "length keys \<le> length rids \<Longrightarrow>
   length (leaf_entry_bytes keys rids) = sum_list (map (\<lambda>k. 2 + key_len k + 4 + 2) keys)"
proof (induction keys arbitrary: rids)
  case Nil
  show ?case by (simp add: leaf_entry_bytes_def)
next
  case (Cons k ks)
  then obtain r rs where "rids = r # rs" by (cases rids) auto
  with Cons show ?case
    by (simp add: leaf_entry_bytes_def leaf_entry_def)
qed

lemma length_internal_entry_bytes:
  "length keys \<le> length children \<Longrightarrow>
   length (internal_entry_bytes keys children) = sum_list (map (\<lambda>k. 2 + key_len k + 4) keys)"
proof (induction keys arbitrary: children)
  case Nil
  show ?case by (simp add: internal_entry_bytes_def)
next
  case (Cons k ks)
  then obtain c cs where "children = c # cs" by (cases children) auto
  with Cons show ?case
    by (simp add: internal_entry_bytes_def internal_entry_def)
qed

lemma sum_entries_ge: "8 * length keys \<le> sum_list (map (\<lambda>k. 2 + key_len k + 4 + 2) keys)"
  by (induction keys) auto

lemma sum_internal_entries_ge: "6 * length keys \<le> sum_list (map (\<lambda>k. 2 + key_len k + 4) keys)"
  by (induction keys) auto

lemma written_leaf_node_decode:
  "written_leaf_node keys rids next_leaf =
     (case WriteLeafNode (replicate PAGE_SIZE 0) keys rids next_leaf of
        Inl e \<Rightarrow> Inl e
      | Inr page_data \<Rightarrow> decode_node page_data)"
proof (cases "length keys \<le> length rids")
  case False
  then show ?thesis
    by (simp add: written_leaf_node_def WriteLeafNode_def memcpy_def Let_def)
next
  case True
  define hdr where "hdr = node_header_bytes 1 (of_nat (length keys)) next_leaf"
  define ents where "ents = leaf_entry_bytes keys rids"
  have lh: "length hdr = 7" by (simp add: hdr_def node_header_bytes_def)
  have le: "length ents = sum_list (map (\<lambda>k. 2 + key_len k + 4 + 2) keys)"
    unfolding ents_def using True by (rule length_leaf_entry_bytes)
  have size: "length (hdr @ ents) = leaf_node_size keys"
    by (simp add: lh le leaf_node_size_def)
  show ?thesis
  proof (cases "PAGE_SIZE < leaf_node_size keys")
    case True
    then show ?thesis
      using size
      by (simp add: written_leaf_node_def WriteLeafNode_def memcpy_def Let_def hdr_def [symmetric] ents_def [symmetric])
  next
    case False
    define zeros where "zeros = replicate (PAGE_SIZE - length (hdr @ ents)) (0 :: byte)"
    define page where "page = hdr @ ents @ zeros"
    have wr: "WriteLeafNode (replicate PAGE_SIZE 0) keys rids next_leaf = Inr page"
      using False True size
      by (simp add: WriteLeafNode_def memcpy_def Let_def hdr_def [symmetric] ents_def [symmetric]
          page_def zeros_def)
    have nk: "length keys < 65536"
      using False sum_entries_ge [of keys] by (simp add: leaf_node_size_def PAGE_SIZE_def)
    have hd: "ReadNodeHeader page = Inr (1, of_nat (length keys), next_leaf)"
      by (simp add: ReadNodeHeader_def page_def hdr_def node_header_bytes_def)
    have un: "unat (of_nat (length keys) :: 16 word) = length keys"
      using nk by (simp add: unat_of_nat)
    have rd: "read_leaf_entries page (length keys) 7 =
        Inr (map (\<lambda>k. take (key_len k) k) keys, take (length keys) rids)"
      using read_leaf_entries_written [OF True, of hdr zeros] by (simp add: page_def ents_def lh)
    show ?thesis
      using False True
      by (simp add: wr decode_node_def ReadLeafNode_def hd un rd written_leaf_node_def)
  qed
qed

lemma written_internal_node_decode:
  "written_internal_node keys children =
     (case WriteInternalNode (replicate PAGE_SIZE 0) keys children of
        Inl e \<Rightarrow> Inl e
      | Inr page_data \<Rightarrow> decode_node page_data)"
proof (cases "length keys < length children")
  case False
  then show ?thesis
    by (simp add: written_internal_node_def WriteInternalNode_def memcpy_def Let_def)
next
  case True
  then obtain c cs where children: "children = c # cs" by (cases children) auto
  with True have lcs: "length keys \<le> length cs" by simp
  define hdr where "hdr = node_header_bytes 0 (of_nat (length keys)) INVALID_PAGE_ID @ le32 c"
  define ents where "ents = internal_entry_bytes keys cs"
  have lh: "length hdr = 11" by (simp add: hdr_def node_header_bytes_def)
  have le: "length ents = sum_list (map (\<lambda>k. 2 + key_len k + 4) keys)"
    unfolding ents_def using lcs by (rule length_internal_entry_bytes)
  have size: "length (hdr @ ents) = internal_node_size keys"
    by (simp add: lh le internal_node_size_def)
  show ?thesis
  proof (cases "PAGE_SIZE < internal_node_size keys")
    case True
    then show ?thesis
      using le
      by (simp add: written_internal_node_def WriteInternalNode_def memcpy_def Let_def children
          node_header_bytes_def ents_def [symmetric] internal_node_size_def)
  next
    case False
    define zeros where "zeros = replicate (PAGE_SIZE - length (hdr @ ents)) (0 :: byte)"
    define page where "page = hdr @ ents @ zeros"
    have wr: "WriteInternalNode (replicate PAGE_SIZE 0) keys children = Inr page"
      using False True le
      by (simp add: WriteInternalNode_def memcpy_def Let_def children ents_def [symmetric]
          page_def zeros_def hdr_def node_header_bytes_def internal_node_size_def)
    have nk: "length keys < 65536"
      using False sum_internal_entries_ge [of keys] by (simp add: internal_node_size_def PAGE_SIZE_def)
    have hd: "ReadNodeHeader page = Inr (0, of_nat (length keys), INVALID_PAGE_ID)"
      by (simp add: ReadNodeHeader_def page_def hdr_def node_header_bytes_def)
    have c0: "le_word (take 4 (drop 7 page)) = c" and lp: "\<not> length page < 11"
      by (simp_all add: page_def hdr_def node_header_bytes_def)
    have un: "unat (of_nat (length keys) :: 16 word) = length keys"
      using nk by (simp add: unat_of_nat)
    have rd: "read_internal_entries page (length keys) 11 =
        Inr (map (\<lambda>k. take (key_len k) k) keys, take (length keys) cs)"
      using read_internal_entries_written [OF lcs, of hdr zeros] by (simp add: page_def ents_def lh)
    show ?thesis
      using False True lp
      by (simp add: wr [unfolded children] decode_node_def ReadInternalNode_def hd un rd c0 written_internal_node_def children)
  qed
qed

lemma le_word_zeros [simp]: "le_word (replicate n 0) = 0"
  by (induction n) simp_all

lemma decode_node_zero_page: "decode_node (replicate PAGE_SIZE 0) = Inr (InternalNode [] [0])"
  by (simp add: decode_node_def ReadInternalNode_def ReadNodeHeader_def PAGE_SIZE_def)

section \<open>B+ tree: leaf split and range scan\<close>

lemmas btree_eval = BPlusTree_Insert_def InsertInternal.simps FetchNode_def WriteNode_def NewNode_def
  written_leaf_node_def written_internal_node_def key_len_def leaf_node_size_def internal_node_size_def
  PAGE_SIZE_def lower_bound_def
  insert_into_leaf_def insert_into_internal_def insert_pos_def skip_equal_def insert_at_def no_split_def Let_def
  FindLeaf_def FindLeaf_from.simps RangeScan_def RangeScan_from.simps INVALID_PAGE_ID_def

lemma length_insert_at: "pos \<le> length xs \<Longrightarrow> length (insert_at pos x xs) = length xs + 1"
  by (simp add: insert_at_def)

lemma leaf_chain_cong:
  "leaf_chain bpm p ps \<Longrightarrow> (\<forall>q\<in>set ps. nodes bpm' q = nodes bpm q) \<Longrightarrow> leaf_chain bpm' p ps"
proof (induction rule: leaf_chain.induct)
  case (leaf_chain_end bpm)
  then show ?case by (simp add: leaf_chain.leaf_chain_end)
next
  case (leaf_chain_step p bpm ks rs nxt ps)
  then show ?case by (auto intro: leaf_chain.leaf_chain_step)
qed

inductive_cases leaf_chain_ConsE: "leaf_chain bpm p (q # ps)"

lemma sorted_dropWhile_less:
  "sorted keys \<Longrightarrow> list_all (\<lambda>k. key \<le> k) (dropWhile (\<lambda>k. k < key) (keys :: byte list list))"
proof (induction keys)
  case Nil
  show ?case by simp
next
  case (Cons k ks)
  show ?case
  proof (cases "k < key")
    case True
    with Cons show ?thesis by simp
  next
    case False
    then have "key \<le> k" by simp
    moreover from Cons.prems have "\<forall>x \<in> set ks. k \<le> x" by simp
    ultimately have "\<forall>x \<in> set (k # ks). key \<le> x" by auto
    with False show ?thesis by (simp add: list_all_iff)
  qed
qed

lemma lower_bound_sorted:
  "sorted keys \<Longrightarrow> lower_bound keys key = Inr (length (takeWhile (\<lambda>k. k < key) keys))"
  using sorted_dropWhile_less [of keys key]
  by (simp add: lower_bound_def Let_def dropWhile_eq_drop)

lemma takeWhile_eq_le:
  "\<forall>x \<in> set ks. key \<le> x \<Longrightarrow>
   takeWhile (\<lambda>k. k = key) ks = takeWhile (\<lambda>k. k \<le> key) (ks :: byte list list)"
  by (induction ks) auto

lemma skip_equal_sorted:
  "sorted keys \<Longrightarrow>
   skip_equal keys key (length (takeWhile (\<lambda>k. k < key) keys)) =
     length (takeWhile (\<lambda>k. k \<le> key) (keys :: byte list list))"
proof (induction keys)
  case Nil
  show ?case by (simp add: skip_equal_def)
next
  case (Cons k ks)
  show ?case
  proof (cases "k < key")
    case True
    with Cons show ?thesis by (simp add: skip_equal_def)
  next
    case False
    then have ge: "key \<le> k" by simp
    from Cons.prems have "\<forall>x \<in> set ks. k \<le> x" by simp
    with ge have all: "\<forall>x \<in> set ks. key \<le> x" by auto
    show ?thesis
      using False ge takeWhile_eq_le [OF all] by (auto simp: skip_equal_def)
  qed
qed

lemma insert_pos_sorted_eq:
  "sorted keys \<Longrightarrow> insert_pos keys key = Inr (length (takeWhile (\<lambda>k. k \<le> key) keys))"
  by (simp add: insert_pos_def lower_bound_sorted skip_equal_sorted)

lemma written_leaf_node_fits:
  assumes "length rids = length keys" and "\<forall>k \<in> set keys. length k < 65536"
    and "leaf_node_size keys \<le> PAGE_SIZE"
  shows "written_leaf_node keys rids next_leaf = Inr (LeafNode keys rids next_leaf)"
proof -
  have "map (\<lambda>k. take (key_len k) k) keys = keys"
    using assms(2) by (simp add: key_len_def map_idI)
  with assms show ?thesis
    by (simp add: written_leaf_node_def)
qed

text \<open>
  The split of a leaf whose halves fit. The new entry goes behind the last key that is
  not greater than the new key (\<open>pos\<close>). When the insertion into a leaf with sorted keys
  makes the key count exceed \<open>max_keys\<close>, no key is 65536 bytes or longer and the
  encodings of both halves fit into a page, the leaf splits at \<open>mid = n / 2\<close> (\<open>n\<close> the
  count after the insertion): the entries \<open>[0, mid)\<close> stay in the page, the entries
  \<open>[mid, n)\<close> go to the freshly allocated page, the separator handed to the parent is
  the first key of the right half, the new leaf's \<open>next_leaf\<close> is the old leaf's former
  one and the old leaf's \<open>next_leaf\<close> is the new page: the leaf chain through the page
  gains the new page right after it and is otherwise the same.
\<close>

lemma leaf_split:
  assumes fetch: "FetchNode bpm node_page_id = Some (LeafNode keys rids next_leaf)"
    and len: "length rids = length keys"
    and sorted: "sorted keys"
    and pos_eq: "pos = length (takeWhile (\<lambda>k. k \<le> key) keys)"
    and over: "length keys + 1 > unat (max_keys tree)"
    and new: "node_can_new bpm"
    and fresh: "node_page_id \<noteq> node_next_page_id bpm"
    and short: "\<forall>k \<in> set (key # keys). length k < 65536"
    and fits_left: "leaf_node_size (take ((length keys + 1) div 2) (insert_at pos key keys)) \<le> PAGE_SIZE"
    and fits_right: "leaf_node_size (drop ((length keys + 1) div 2) (insert_at pos key keys)) \<le> PAGE_SIZE"
  shows "\<exists>bpm'.
     InsertInternal tree bpm node_page_id key rid =
       Some (Inr (\<lparr>did_split = True,
                   split_key = insert_at pos key keys ! ((length keys + 1) div 2),
                   new_page_id = node_next_page_id bpm\<rparr>, bpm')) \<and>
     nodes bpm' node_page_id =
       LeafNode (take ((length keys + 1) div 2) (insert_at pos key keys))
                (take ((length keys + 1) div 2) (insert_at pos rid rids))
                (node_next_page_id bpm) \<and>
     nodes bpm' (node_next_page_id bpm) =
       LeafNode (drop ((length keys + 1) div 2) (insert_at pos key keys))
                (drop ((length keys + 1) div 2) (insert_at pos rid rids))
                next_leaf \<and>
     (\<forall>p. p = node_page_id \<or> p = node_next_page_id bpm \<or> nodes bpm' p = nodes bpm p) \<and>
     node_next_page_id bpm' = node_next_page_id bpm + 1 \<and>
     (\<forall>ps. leaf_chain bpm node_page_id (node_page_id # ps) \<and> node_page_id \<notin> set ps \<and>
           node_next_page_id bpm \<notin> set ps \<and> node_next_page_id bpm \<noteq> INVALID_PAGE_ID \<longrightarrow>
           leaf_chain bpm' node_page_id (node_page_id # node_next_page_id bpm # ps))"
proof -
  let ?keys' = "insert_at pos key keys"
  let ?rids' = "insert_at pos rid rids"
  let ?mid = "(length keys + 1) div 2"
  let ?new = "node_next_page_id bpm"
  have pos: "insert_pos keys key = Inr pos"
    unfolding pos_eq using sorted by (rule insert_pos_sorted_eq)
  have pos_le: "pos \<le> length keys"
    unfolding pos_eq by (rule length_takeWhile_le)
  have lk: "length ?keys' = length keys + 1" using pos_le by (rule length_insert_at)
  have lr: "length ?rids' = length keys + 1" using pos_le len by (simp add: length_insert_at)
  have mid_lt: "?mid < length ?keys'" using lk by simp
  have "drop ?mid ?keys' \<noteq> []" using mid_lt by simp
  then have hd_eq: "hd (drop ?mid ?keys') = ?keys' ! ?mid"
    using mid_lt by (simp add: hd_drop_conv_nth)
  have short': "\<forall>k \<in> set ?keys'. length k < 65536"
    using short by (auto simp: insert_at_def dest: in_set_takeD in_set_dropD)
  have wr: "written_leaf_node (drop ?mid ?keys') (drop ?mid ?rids') next_leaf =
              Inr (LeafNode (drop ?mid ?keys') (drop ?mid ?rids') next_leaf)"
    using short' fits_right lk lr
    by (intro written_leaf_node_fits) (auto dest: in_set_dropD)
  have wl: "written_leaf_node (take ?mid ?keys') (take ?mid ?rids') ?new =
              Inr (LeafNode (take ?mid ?keys') (take ?mid ?rids') ?new)"
    using short' fits_left lk lr
    by (intro written_leaf_node_fits) (auto dest: in_set_takeD)
  define bpm' where "bpm' = bpm\<lparr>nodes := (nodes bpm)
      (?new := LeafNode (drop ?mid ?keys') (drop ?mid ?rids') next_leaf,
       node_page_id := LeafNode (take ?mid ?keys') (take ?mid ?rids') ?new),
      node_next_page_id := ?new + 1\<rparr>"
  have "insert_into_leaf tree bpm node_page_id keys rids next_leaf key rid =
        Inr (\<lparr>did_split = True, split_key = ?keys' ! ?mid, new_page_id = ?new\<rparr>, bpm')"
    using pos_le len over new lk hd_eq wr wl
    by (simp add: insert_into_leaf_def pos Let_def NewNode_def WriteNode_def bpm'_def)
  with fetch have "InsertInternal tree bpm node_page_id key rid =
        Some (Inr (\<lparr>did_split = True, split_key = ?keys' ! ?mid, new_page_id = ?new\<rparr>, bpm'))"
    by (simp add: InsertInternal.simps)
  moreover have n1: "nodes bpm' node_page_id = LeafNode (take ?mid ?keys') (take ?mid ?rids') ?new"
    by (simp add: bpm'_def)
  moreover have n2: "nodes bpm' ?new = LeafNode (drop ?mid ?keys') (drop ?mid ?rids') next_leaf"
    using fresh by (simp add: bpm'_def)
  moreover have "\<forall>p. p = node_page_id \<or> p = ?new \<or> nodes bpm' p = nodes bpm p"
    by (simp add: bpm'_def)
  moreover have "node_next_page_id bpm' = ?new + 1"
    by (simp add: bpm'_def)
  moreover have "\<forall>ps. leaf_chain bpm node_page_id (node_page_id # ps) \<and> node_page_id \<notin> set ps \<and>
           ?new \<notin> set ps \<and> ?new \<noteq> INVALID_PAGE_ID \<longrightarrow>
           leaf_chain bpm' node_page_id (node_page_id # ?new # ps)"
  proof (intro allI impI)
    fix ps
    assume a: "leaf_chain bpm node_page_id (node_page_id # ps) \<and> node_page_id \<notin> set ps \<and>
           ?new \<notin> set ps \<and> ?new \<noteq> INVALID_PAGE_ID"
    from fetch have nd: "nodes bpm node_page_id = LeafNode keys rids next_leaf"
      by (simp add: FetchNode_def split: if_splits)
    from a have "leaf_chain bpm node_page_id (node_page_id # ps)" by simp
    then have ne: "node_page_id \<noteq> INVALID_PAGE_ID" and tl: "leaf_chain bpm next_leaf ps"
      using nd by (auto elim: leaf_chain_ConsE)
    have "\<forall>q\<in>set ps. nodes bpm' q = nodes bpm q"
      using a by (auto simp: bpm'_def)
    with tl have tl': "leaf_chain bpm' next_leaf ps" by (rule leaf_chain_cong)
    from a have "?new \<noteq> INVALID_PAGE_ID" by simp
    from leaf_chain_step [OF this n2 tl'] have "leaf_chain bpm' ?new (?new # ps)" .
    from leaf_chain_step [OF ne n1 this]
    show "leaf_chain bpm' node_page_id (node_page_id # ?new # ps)" .
  qed
  ultimately show ?thesis by blast
qed

lemma insert_pos_small: "insert_pos [[97], [99]] [98] = Inr 1"
  by (simp add: insert_pos_def lower_bound_def skip_equal_def)

lemma upper_pos_small: "1 = length (takeWhile (\<lambda>k. k \<le> [98]) [[97], [99 :: byte]])"
  by simp

lemma leaf_split_small:
  "FetchNode small_pool 1 = Some (LeafNode [[97], [99]]
       [\<lparr>page_id = 7, slot_id = 0\<rparr>, \<lparr>page_id = 7, slot_id = 1\<rparr>] INVALID_PAGE_ID) \<and>
   (case InsertInternal small_tree small_pool 1 [98] \<lparr>page_id = 7, slot_id = 2\<rparr> of
      Some (Inr (res, bpm')) \<Rightarrow>
        res = \<lparr>did_split = True, split_key = [98], new_page_id = 2\<rparr> \<and>
        nodes bpm' 1 = LeafNode [[97]] [\<lparr>page_id = 7, slot_id = 0\<rparr>] 2 \<and>
        nodes bpm' 2 = LeafNode [[98], [99]]
          [\<lparr>page_id = 7, slot_id = 2\<rparr>, \<lparr>page_id = 7, slot_id = 1\<rparr>] INVALID_PAGE_ID \<and>
        leaf_chain bpm' 1 [1, 2]
    | _ \<Rightarrow> False)"
proof -
  have f: "FetchNode small_pool 1 = Some (LeafNode [[97], [99]]
       [\<lparr>page_id = 7, slot_id = 0\<rparr>, \<lparr>page_id = 7, slot_id = 1\<rparr>] INVALID_PAGE_ID)"
    by (simp add: FetchNode_def small_pool_def)
  have l: "length [\<lparr>page_id = 7, slot_id = 0\<rparr>, \<lparr>page_id = (7 :: page_id_t), slot_id = (1 :: 16 word)\<rparr>]
             = length [[97], [99 :: byte]]" by simp
  have o: "length [[97], [99 :: byte]] + 1 > unat (max_keys small_tree)"
    by (simp add: small_tree_def)
  have n: "node_can_new small_pool" by (simp add: small_pool_def)
  have fr: "(1 :: page_id_t) \<noteq> node_next_page_id small_pool" by (simp add: small_pool_def)
  have sh: "\<forall>k \<in> set ([98] # [[97], [99 :: byte]]). length k < 65536" by simp
  have fl: "leaf_node_size (take ((length [[97], [99 :: byte]] + 1) div 2) (insert_at 1 [98] [[97], [99]])) \<le> PAGE_SIZE"
    and fr': "leaf_node_size (drop ((length [[97], [99 :: byte]] + 1) div 2) (insert_at 1 [98] [[97], [99]])) \<le> PAGE_SIZE"
    by (simp_all add: insert_at_def leaf_node_size_def key_len_def PAGE_SIZE_def)
  have ch: "leaf_chain small_pool 1 [1]"
    by (rule leaf_chain_step [where nxt = INVALID_PAGE_ID])
      (simp_all add: small_pool_def INVALID_PAGE_ID_def leaf_chain_end [unfolded INVALID_PAGE_ID_def])
  have nn: "node_next_page_id small_pool = 2" by (simp add: small_pool_def)
  have so: "sorted [[97], [99 :: byte]]" by simp
  from leaf_split [OF f l so upper_pos_small o n fr sh fl fr', of "\<lparr>page_id = 7, slot_id = 2\<rparr>"]
  obtain bpm' where
    r: "InsertInternal small_tree small_pool 1 [98] \<lparr>page_id = 7, slot_id = 2\<rparr> =
          Some (Inr (\<lparr>did_split = True, split_key = [98], new_page_id = 2\<rparr>, bpm'))"
    and n1: "nodes bpm' 1 = LeafNode [[97]] [\<lparr>page_id = 7, slot_id = 0\<rparr>] 2"
    and n2: "nodes bpm' 2 = LeafNode [[98], [99]]
          [\<lparr>page_id = 7, slot_id = 2\<rparr>, \<lparr>page_id = 7, slot_id = 1\<rparr>] INVALID_PAGE_ID"
    and chain: "\<forall>ps. leaf_chain small_pool 1 (1 # ps) \<and> 1 \<notin> set ps \<and> 2 \<notin> set ps \<and>
           (2 :: page_id_t) \<noteq> INVALID_PAGE_ID \<longrightarrow> leaf_chain bpm' 1 (1 # 2 # ps)"
    by (auto simp: nn insert_at_def)
  from chain ch have "leaf_chain bpm' 1 [1, 2]"
    by (simp add: INVALID_PAGE_ID_def)
  with f r n1 n2 show ?thesis by simp
qed

text \<open>
  C8 fails when a half does not fit into its page. The leaf \<open>["a", "c"]\<close> of a tree with
  \<open>max_keys = 2\<close> receives a key of 5000 bytes \<open>"bb...b"\<close>: the insertion position is 1,
  the count 3 exceeds \<open>max_keys\<close>, \<open>mid\<close> is 1 and the right half is the long key and
  \<open>"c"\<close>, whose encoding takes \<open>7 + (2 + 5000 + 6) + (2 + 1 + 6) = 5024\<close> bytes.
  \<open>WriteLeafNode\<close> writes them into the 4096-byte frame of the new page without a bound
  check: the call overruns the frame (undefined behaviour) and no split as the claim
  describes it results.
\<close>

theorem leaf_split_overruns_page:
  "length long_key = 5000 \<and>
   insert_pos [[97], [99]] long_key = Inr 1 \<and>
   leaf_node_size [long_key, [99]] = 5024 \<and>
   WriteLeafNode (replicate PAGE_SIZE 0) [long_key, [99]]
     [\<lparr>page_id = 7, slot_id = 2\<rparr>, \<lparr>page_id = 7, slot_id = 1\<rparr>] INVALID_PAGE_ID =
     Inl UndefinedBehaviour \<and>
   InsertInternal small_tree small_pool 1 long_key \<lparr>page_id = 7, slot_id = 2\<rparr> =
     Some (Inl UndefinedBehaviour)"
  by (simp add: long_key_def small_tree_def small_pool_def btree_eval WriteLeafNode_def
      node_header_bytes_def leaf_entry_bytes_def leaf_entry_def)

text \<open>
  C3. After the 51 inserts \<open>("a", rid\<^sub>0), \<dots>, ("a", rid\<^sub>5\<^sub>0)\<close> into the empty index
  with the default fanout 50, the root leaf has split into a left leaf with 25 entries
  and a right leaf with 26, under a new root with the separator \<open>"a"\<close>.
  \<open>RangeScan("a", "a")\<close>, the scan over the full key range, starts at the leaf that
  \<open>FindLeaf("a")\<close> returns, which is the right leaf (the descent steps past a separator
  equal to the key), and returns the last 26 pairs, not the 51 inserted.
\<close>

theorem RangeScan_misses_duplicates:
  "(case insert_all default_tree empty_index_pool (same_key_entries 51) of
      Some (Inr (tree, bpm)) \<Rightarrow>
        root_page_id tree = 3 \<and> nodes bpm 3 = InternalNode [[97]] [1, 2] \<and>
        RangeScan tree bpm [97] [97] = Some (Inr (drop 25 (same_key_entries 51)))
    | _ \<Rightarrow> False) \<and>
   length (same_key_entries 51) = 51 \<and> length (drop 25 (same_key_entries 51)) = 26"
  by (simp add: same_key_entries_def upt_rec default_tree_def empty_index_pool_def btree_eval)

section \<open>Serializer: what comes back from the bytes\<close>

text \<open>Conversions between \<open>int32_t\<close> and \<open>size_t\<close> below \<open>2^31\<close>, and the readers on
  the bytes their writers produced.\<close>

lemma sint_of_nat_32: "n < 2 ^ 31 \<Longrightarrow> sint (of_nat n :: 32 word) = int n"
  by (simp add: signed_of_nat signed_take_bit_int_eq_self)

lemma size_t_of_int32_of_nat: "n < 2 ^ 31 \<Longrightarrow> size_t_of_int32 (of_nat n) = n"
  by (simp add: size_t_of_int32_def sint_of_nat_32)

lemma loop_bound_of_nat: "0 < n \<Longrightarrow> n < 2 ^ 31 \<Longrightarrow> loop_bound (of_nat n) = n - 1"
  by (simp add: loop_bound_def sint_of_nat_32 nat_diff_distrib')

lemma size_t_add_small: "a + b < 2 ^ 64 \<Longrightarrow> size_t_add a b = a + b"
  by (simp add: size_t_add_def)

lemma ReadInt32_at:
  "data = pre @ le32 w @ rest \<Longrightarrow> offset = length pre \<Longrightarrow>
   ReadInt32 data offset = Inr (w, offset + 4)"
  by (simp add: ReadInt32_def)

lemma ReadInt64_at:
  "data = pre @ le64 w @ rest \<Longrightarrow> offset = length pre \<Longrightarrow>
   ReadInt64 data offset = Inr (w, offset + 8)"
  by (simp add: ReadInt64_def)

lemma takeWhile_cstring: "0 \<notin> set key \<Longrightarrow> takeWhile (\<lambda>b. b \<noteq> 0) (key @ (0::byte) # rest) = key"
  by (induction key) auto

lemma ReadCString_at:
  "data = pre @ key @ 0 # rest \<Longrightarrow> 0 \<notin> set key \<Longrightarrow> offset = length pre \<Longrightarrow>
   ReadCString data offset = Inr (key, offset + length key + 1)"
  by (simp add: ReadCString_def takeWhile_cstring)

lemma ReadString_at:
  assumes "data = pre @ AppendString s @ rest" and "length s + 1 < 2 ^ 31"
    and "offset = length pre" and "length pre + length s + 5 < 2 ^ 64"
  shows "ReadString data offset = Inr (s, offset + 4 + length s + 1)"
proof -
  define w :: "32 word" where "w = of_nat (length s + 1)"
  have rd: "ReadInt32 data offset = Inr (w, offset + 4)"
    by (rule ReadInt32_at [where pre = pre and rest = "s @ 0 # rest"])
      (simp_all add: assms AppendString_def AppendCString_def w_def)
  have si: "sint w = int (length s) + 1"
    unfolding w_def using sint_of_nat_32 [of "length s + 1"] assms(2) by simp
  have dr: "take (length s) (drop (offset + 4) data) = s"
    using assms by (simp add: AppendString_def AppendCString_def)
  have ln: "offset + 4 + length s \<le> length data"
    using assms by (simp add: AppendString_def AppendCString_def)
  show ?thesis
    using assms(4) ln [unfolded assms(3)]
    by (simp add: ReadString_def rd [unfolded assms(3)] si dr [unfolded assms(3)]
        size_t_add_small assms(3) nat_add_distrib)
qed

lemma Add_append:
  "\<forall>k' \<in> set (map fst acc). k' < key \<Longrightarrow> Add acc key v = acc @ [(key, v)]"
  by (induction acc) (auto simp: )

lemma fold_Add:
  "sorted_wrt (<) (map fst (acc @ es)) \<Longrightarrow> fold (\<lambda>(k, v) d. Add d k v) es acc = acc @ es"
proof (induction es arbitrary: acc)
  case Nil
  then show ?case by simp
next
  case (Cons e es)
  obtain k v where e: "e = (k, v)" by (cases e)
  have "Add acc k v = acc @ [(k, v)]"
    using Cons.prems by (intro Add_append) (auto simp: e sorted_wrt_append)
  moreover have "sorted_wrt (<) (map fst ((acc @ [(k, v)]) @ es))"
    using Cons.prems by (simp add: e)
  ultimately show ?case
    using Cons.IH [of "acc @ [(k, v)]"] by (simp add: e)
qed

text \<open>One turn of the loop of \<open>Deserialize\<close> on the bytes of one element.\<close>

lemma step_Int32:
  assumes "0 \<notin> set key" and "length pre < bound"
  shows "deserialize_loop (pre @ serialize_element key (BsonInt32 x) @ tail) bound (length pre) acc =
         deserialize_loop (pre @ serialize_element key (BsonInt32 x) @ tail) bound
           (length (pre @ serialize_element key (BsonInt32 x))) (Add acc key (BsonInt32 x))"
proof -
  define data where "data = pre @ serialize_element key (BsonInt32 x) @ tail"
  have ty: "data ! length pre = 0x10" and ln: "length pre < length data"
    by (simp_all add: data_def)
  have cs: "ReadCString data (length pre + 1) = Inr (key, length pre + 1 + length key + 1)"
    by (rule ReadCString_at [where pre = "pre @ [0x10]" and rest = "le32 x @ tail"])
      (simp_all add: data_def assms AppendCString_def)
  have rd: "ReadInt32 data (length pre + 1 + length key + 1) = Inr (x, length pre + 1 + length key + 1 + 4)"
    by (rule ReadInt32_at [where pre = "pre @ 0x10 # key @ [0]" and rest = tail])
      (simp_all add: data_def AppendCString_def)
  have "deserialize_loop data bound (length pre) acc =
        deserialize_loop data bound (length pre + 1 + length key + 1 + 4) (Add acc key (BsonInt32 x))"
    apply (subst deserialize_loop.simps)
    using ty ln cs rd assms(1,2) apply (simp add: ReadDouble_def)
    done
  then show ?thesis
    by (simp add: data_def AppendCString_def AppendString_def ac_simps)
qed

lemma step_Int64:
  assumes "0 \<notin> set key" and "length pre < bound"
  shows "deserialize_loop (pre @ serialize_element key (BsonInt64 x) @ tail) bound (length pre) acc =
         deserialize_loop (pre @ serialize_element key (BsonInt64 x) @ tail) bound
           (length (pre @ serialize_element key (BsonInt64 x))) (Add acc key (BsonInt64 x))"
proof -
  define data where "data = pre @ serialize_element key (BsonInt64 x) @ tail"
  have ty: "data ! length pre = 0x12" and ln: "length pre < length data"
    by (simp_all add: data_def)
  have cs: "ReadCString data (length pre + 1) = Inr (key, length pre + 1 + length key + 1)"
    by (rule ReadCString_at [where pre = "pre @ [0x12]" and rest = "le64 x @ tail"])
      (simp_all add: data_def assms AppendCString_def)
  have rd: "ReadInt64 data (length pre + 1 + length key + 1) = Inr (x, length pre + 1 + length key + 1 + 8)"
    by (rule ReadInt64_at [where pre = "pre @ 0x12 # key @ [0]" and rest = tail])
      (simp_all add: data_def AppendCString_def)
  have "deserialize_loop data bound (length pre) acc =
        deserialize_loop data bound (length pre + 1 + length key + 1 + 8) (Add acc key (BsonInt64 x))"
    apply (subst deserialize_loop.simps)
    using ty ln cs rd assms(1,2) apply (simp add: ReadDouble_def)
    done
  then show ?thesis
    by (simp add: data_def AppendCString_def AppendString_def ac_simps)
qed

lemma step_Double:
  assumes "0 \<notin> set key" and "length pre < bound"
  shows "deserialize_loop (pre @ serialize_element key (BsonDouble x) @ tail) bound (length pre) acc =
         deserialize_loop (pre @ serialize_element key (BsonDouble x) @ tail) bound
           (length (pre @ serialize_element key (BsonDouble x))) (Add acc key (BsonDouble x))"
proof -
  define data where "data = pre @ serialize_element key (BsonDouble x) @ tail"
  have ty: "data ! length pre = 0x01" and ln: "length pre < length data"
    by (simp_all add: data_def)
  have cs: "ReadCString data (length pre + 1) = Inr (key, length pre + 1 + length key + 1)"
    by (rule ReadCString_at [where pre = "pre @ [0x01]" and rest = "le64 x @ tail"])
      (simp_all add: data_def assms AppendCString_def)
  have rd: "ReadInt64 data (length pre + 1 + length key + 1) = Inr (x, length pre + 1 + length key + 1 + 8)"
    by (rule ReadInt64_at [where pre = "pre @ 0x01 # key @ [0]" and rest = tail])
      (simp_all add: data_def AppendCString_def)
  have "deserialize_loop data bound (length pre) acc =
        deserialize_loop data bound (length pre + 1 + length key + 1 + 8) (Add acc key (BsonDouble x))"
    apply (subst deserialize_loop.simps)
    using ty ln cs rd assms(1,2) apply (simp add: ReadDouble_def)
    done
  then show ?thesis
    by (simp add: data_def AppendCString_def AppendString_def ac_simps)
qed

lemma step_String:
  assumes "0 \<notin> set key" and "length pre < bound"
    and "length pre + length (serialize_element key (BsonString x)) < 2 ^ 31"
  shows "deserialize_loop (pre @ serialize_element key (BsonString x) @ tail) bound (length pre) acc =
         deserialize_loop (pre @ serialize_element key (BsonString x) @ tail) bound
           (length (pre @ serialize_element key (BsonString x))) (Add acc key (BsonString x))"
proof -
  define data where "data = pre @ serialize_element key (BsonString x) @ tail"
  have ty: "data ! length pre = 0x02" and ln: "length pre < length data"
    by (simp_all add: data_def)
  have cs: "ReadCString data (length pre + 1) = Inr (key, length pre + 1 + length key + 1)"
    by (rule ReadCString_at [where pre = "pre @ [0x02]" and rest = "AppendString x @ tail"])
      (simp_all add: data_def assms AppendCString_def)
  have rd: "ReadString data (length pre + 1 + length key + 1) = Inr (x, length pre + 1 + length key + 1 + 4 + length x + 1)"
    by (rule ReadString_at [where pre = "pre @ 0x02 # key @ [0]" and rest = tail])
      (use assms(3) in \<open>simp_all add: data_def AppendCString_def AppendString_def\<close>)
  have "deserialize_loop data bound (length pre) acc =
        deserialize_loop data bound (length pre + 1 + length key + 1 + 4 + length x + 1) (Add acc key (BsonString x))"
    apply (subst deserialize_loop.simps)
    using ty ln cs rd assms(1,2) apply (simp add: ReadDouble_def)
    done
  then show ?thesis
    by (simp add: data_def AppendCString_def AppendString_def ac_simps)
qed

lemma step_Boolean:
  assumes "0 \<notin> set key" and "length pre < bound"
  shows "deserialize_loop (pre @ serialize_element key (BsonBoolean x) @ tail) bound (length pre) acc =
         deserialize_loop (pre @ serialize_element key (BsonBoolean x) @ tail) bound
           (length (pre @ serialize_element key (BsonBoolean x))) (Add acc key (BsonBoolean x))"
proof -
  define data where "data = pre @ serialize_element key (BsonBoolean x) @ tail"
  have ty: "data ! length pre = 0x08" and ln: "length pre < length data"
    by (simp_all add: data_def)
  have cs: "ReadCString data (length pre + 1) = Inr (key, length pre + 1 + length key + 1)"
    by (rule ReadCString_at [where pre = "pre @ [0x08]" and rest = "(if x then 0x01 else 0x00) # tail"])
      (simp_all add: data_def assms AppendCString_def)
  have "data = (pre @ 0x08 # key @ [0]) @ (if x then 0x01 else 0x00) # tail"
    by (simp add: data_def AppendCString_def)
  then have "data ! length (pre @ 0x08 # key @ [0]) = (if x then 0x01 else 0x00)"
    by (simp only: nth_append_length)
  then have bv: "(data ! (length pre + 1 + length key + 1) = 0x01) = x"
    by (simp add: ac_simps)
  have l2: "length pre + 1 + length key + 1 < length data"
    by (simp add: data_def AppendCString_def)
  have "deserialize_loop data bound (length pre) acc =
        deserialize_loop data bound (length pre + 1 + length key + 1 + 1) (Add acc key (BsonBoolean x))"
    apply (subst deserialize_loop.simps)
    using ty ln cs bv l2 assms(1,2) apply simp
    done
  then show ?thesis
    by (simp add: data_def AppendCString_def ac_simps)
qed

lemma Serialize_shape:
  "Serialize doc = le32 (of_nat (length (Serialize doc))) @ serialize_elements doc @ [0]"
  by (simp add: Serialize.simps Let_def)

lemma step_Document:
  assumes "0 \<notin> set key" and "length pre < bound"
    and "length pre + length (serialize_element key (BsonDocumentPtr x)) < 2 ^ 31"
    and sub: "\<And>tail. deserialize_loop (Serialize x @ tail)
                 (loop_bound (of_nat (length (Serialize x)))) 4 [] = Some (Inr x)"
  shows "deserialize_loop (pre @ serialize_element key (BsonDocumentPtr x) @ tail) bound (length pre) acc =
         deserialize_loop (pre @ serialize_element key (BsonDocumentPtr x) @ tail) bound
           (length (pre @ serialize_element key (BsonDocumentPtr x))) (Add acc key (BsonDocumentPtr x))"
proof -
  define S where "S = Serialize x"
  define w :: "32 word" where "w = of_nat (length S)"
  define data where "data = pre @ 0x03 # key @ 0 # S @ tail"
  have S: "S = le32 w @ serialize_elements x @ [0]"
    unfolding S_def w_def by (rule Serialize_shape)
  have small: "length pre + length key + 2 + length S < 2 ^ 31"
    using assms(3) by (simp add: S_def AppendCString_def)
  have ty: "data ! length pre = 0x03" and ln: "length pre < length data"
    by (simp_all add: data_def)
  have cs: "ReadCString data (length pre + 1) = Inr (key, length pre + 1 + length key + 1)"
    by (rule ReadCString_at [where pre = "pre @ [0x03]" and rest = "S @ tail"])
      (simp_all add: data_def assms)
  have rd: "ReadInt32 data (length pre + 1 + length key + 1) = Inr (w, length pre + 1 + length key + 1 + 4)"
    by (rule ReadInt32_at [where pre = "pre @ 0x03 # key @ [0]" and rest = "serialize_elements x @ 0 # tail"])
      (simp_all add: data_def S)
  have dr: "drop (length pre + 1 + length key + 1) data = S @ tail"
    by (simp add: data_def)
  have rd0: "ReadInt32 (S @ tail) 0 = Inr (w, 4)"
    using ReadInt32_at [where pre = "[]" and w = w and rest = "serialize_elements x @ 0 # tail" and offset = 0
        and data = "S @ tail"]
    by (simp add: S)
  have inner: "deserialize_loop (S @ tail) (loop_bound w) 4 [] = Some (Inr x)"
    unfolding S_def w_def by (rule sub)
  have sz: "size_t_of_int32 w = length S"
    unfolding w_def using small by (intro size_t_of_int32_of_nat) simp
  have adv: "size_t_add (length pre + 1 + length key + 1) (length S) = length pre + 1 + length key + 1 + length S"
    using small by (intro size_t_add_small) simp
  have "deserialize_loop data bound (length pre) acc =
        deserialize_loop data bound (length pre + 1 + length key + 1 + length S) (Add acc key (BsonDocumentPtr x))"
    apply (subst deserialize_loop.simps)
    using ty ln cs rd dr rd0 inner sz adv assms(1,2) apply simp
    done
  then show ?thesis
    by (simp add: data_def AppendCString_def S_def ac_simps)
qed

text \<open>The loop on the bytes of a list of elements, and the nested call.\<close>

lemma serialize_element_nonempty: "encodable_value v \<Longrightarrow> 0 < length (serialize_element key v)"
  by (cases v) simp_all

lemma loop_Nil:
  "deserialize_loop (pre @ serialize_elements [] @ 0 # tail) (length pre) (length pre) acc = Some (Inr acc)"
  by (subst deserialize_loop.simps) simp

lemma loop_Cons:
  assumes step: "\<And>pre tail bound acc. length pre < bound \<Longrightarrow>
      length pre + length (serialize_element key v) < 2 ^ 31 \<Longrightarrow>
      deserialize_loop (pre @ serialize_element key v @ tail) bound (length pre) acc =
      deserialize_loop (pre @ serialize_element key v @ tail) bound
        (length (pre @ serialize_element key v)) (Add acc key v)"
    and rest: "\<And>pre tail acc. length pre + length (serialize_elements es) < 2 ^ 31 \<Longrightarrow>
      deserialize_loop (pre @ serialize_elements es @ 0 # tail)
        (length pre + length (serialize_elements es)) (length pre) acc =
      Some (Inr (fold (\<lambda>(k, v) d. Add d k v) es acc))"
    and v: "encodable_value v"
    and small: "length pre + length (serialize_elements ((key, v) # es)) < 2 ^ 31"
  shows "deserialize_loop (pre @ serialize_elements ((key, v) # es) @ 0 # tail)
        (length pre + length (serialize_elements ((key, v) # es))) (length pre) acc =
      Some (Inr (fold (\<lambda>(k, v) d. Add d k v) ((key, v) # es) acc))"
proof -
  define E where "E = serialize_element key v"
  define R where "R = serialize_elements es"
  have pos: "0 < length E"
    unfolding E_def using v by (rule serialize_element_nonempty)
  have sm: "length pre + length E + length R < 2 ^ 31"
    using small by (simp add: E_def R_def)
  have "deserialize_loop (pre @ E @ (R @ 0 # tail)) (length pre + length E + length R) (length pre) acc =
        deserialize_loop (pre @ E @ (R @ 0 # tail)) (length pre + length E + length R)
          (length (pre @ E)) (Add acc key v)"
    unfolding E_def using pos sm by (intro step) (simp_all add: E_def)
  also have "\<dots> = deserialize_loop ((pre @ E) @ R @ 0 # tail) (length (pre @ E) + length R)
          (length (pre @ E)) (Add acc key v)"
    by simp
  also have "\<dots> = Some (Inr (fold (\<lambda>(k, v) d. Add d k v) es (Add acc key v)))"
    unfolding R_def using sm by (intro rest) (simp add: R_def)
  finally show ?thesis
    by (simp add: E_def R_def ac_simps)
qed

lemma loop_doc:
  assumes elems: "\<And>pre tail acc. length pre + length (serialize_elements doc) < 2 ^ 31 \<Longrightarrow>
      deserialize_loop (pre @ serialize_elements doc @ 0 # tail)
        (length pre + length (serialize_elements doc)) (length pre) acc =
      Some (Inr (fold (\<lambda>(k, v) d. Add d k v) doc acc))"
    and sorted: "sorted_wrt (<) (map fst doc)"
    and small: "length (Serialize doc) < 2 ^ 31"
  shows "deserialize_loop (Serialize doc @ tail) (loop_bound (of_nat (length (Serialize doc)))) 4 [] =
      Some (Inr doc)"
proof -
  define w :: "32 word" where "w = of_nat (length (Serialize doc))"
  define R where "R = serialize_elements doc"
  have S: "Serialize doc = le32 w @ R @ [0]"
    unfolding w_def R_def by (rule Serialize_shape)
  have len: "length (Serialize doc) = 4 + length R + 1"
    by (subst S) simp
  have lb: "loop_bound w = length (le32 w) + length R"
    unfolding w_def using small loop_bound_of_nat [of "length (Serialize doc)"] by (simp add: len)
  have "deserialize_loop (le32 w @ R @ 0 # tail) (length (le32 w) + length R) (length (le32 w)) [] =
        Some (Inr (fold (\<lambda>(k, v) d. Add d k v) doc []))"
    unfolding R_def using small by (intro elems) (simp add: len R_def)
  moreover have "fold (\<lambda>(k, v) d. Add d k v) doc [] = doc"
    using fold_Add [of "[]" doc] sorted by simp
  ultimately show ?thesis
    unfolding w_def [symmetric] by (simp add: S lb)
qed

lemma round_trip_induct:
  "\<forall>tail. encodable_doc doc \<longrightarrow> length (Serialize doc) < 2 ^ 31 \<longrightarrow>
     deserialize_loop (Serialize doc @ tail) (loop_bound (of_nat (length (Serialize doc)))) 4 [] =
     Some (Inr doc)"
  "\<forall>pre tail acc. encodable_elements es \<longrightarrow> length pre + length (serialize_elements es) < 2 ^ 31 \<longrightarrow>
     deserialize_loop (pre @ serialize_elements es @ 0 # tail)
       (length pre + length (serialize_elements es)) (length pre) acc =
     Some (Inr (fold (\<lambda>(k, v) d. Add d k v) es acc))"
  "\<forall>pre tail bound acc. 0 \<notin> set key \<longrightarrow> encodable_value v \<longrightarrow> length pre < bound \<longrightarrow>
     length pre + length (serialize_element key v) < 2 ^ 31 \<longrightarrow>
     deserialize_loop (pre @ serialize_element key v @ tail) bound (length pre) acc =
     deserialize_loop (pre @ serialize_element key v @ tail) bound
       (length (pre @ serialize_element key v)) (Add acc key v)"
proof (induction doc and es and key v rule: Serialize_serialize_elements_serialize_element.induct)
  case (1 doc)
  show ?case
  proof (intro allI impI)
    fix tail :: "byte list"
    assume e: "encodable_doc doc" and s: "length (Serialize doc) < 2 ^ 31"
    show "deserialize_loop (Serialize doc @ tail) (loop_bound (of_nat (length (Serialize doc)))) 4 [] =
      Some (Inr doc)"
      using 1 e s by (intro loop_doc) simp_all
  qed
next
  case 2
  show ?case
    using loop_Nil by simp
next
  case (3 key v es)
  show ?case
  proof (intro allI impI)
    fix pre tail :: "byte list" and acc :: BsonDocument
    assume e: "encodable_elements ((key, v) # es)"
      and s: "length pre + length (serialize_elements ((key, v) # es)) < 2 ^ 31"
    show "deserialize_loop (pre @ serialize_elements ((key, v) # es) @ 0 # tail)
        (length pre + length (serialize_elements ((key, v) # es))) (length pre) acc =
      Some (Inr (fold (\<lambda>(k, v) d. Add d k v) ((key, v) # es) acc))"
      using 3 e s by (intro loop_Cons) simp_all
  qed
next
  case (4 key x)
  show ?case using step_Double by blast
next
  case (5 key x)
  show ?case using step_String by blast
next
  case (6 key x)
  show ?case using step_Int32 by blast
next
  case (7 key x)
  show ?case using step_Int64 by blast
next
  case (8 key x)
  show ?case using step_Boolean by blast
next
  case (9 key sub)
  show ?case
  proof (intro allI impI)
    fix pre tail :: "byte list" and bound :: nat and acc :: BsonDocument
    assume k: "0 \<notin> set key" and e: "encodable_value (BsonDocumentPtr sub)"
      and b: "length pre < bound"
      and s: "length pre + length (serialize_element key (BsonDocumentPtr sub)) < 2 ^ 31"
    have "length (Serialize sub) < 2 ^ 31"
      using s by simp
    then have "\<And>tail. deserialize_loop (Serialize sub @ tail)
                 (loop_bound (of_nat (length (Serialize sub)))) 4 [] = Some (Inr sub)"
      using 9 e by simp
    then show "deserialize_loop (pre @ serialize_element key (BsonDocumentPtr sub) @ tail) bound (length pre) acc =
     deserialize_loop (pre @ serialize_element key (BsonDocumentPtr sub) @ tail) bound
       (length (pre @ serialize_element key (BsonDocumentPtr sub))) (Add acc key (BsonDocumentPtr sub))"
      using k b s by (intro step_Document)
  qed
next
  case (10 key)
  show ?case by simp
qed

lemma Deserialize_Serialize:
  assumes "encodable_doc doc" and "length (Serialize doc) < 2 ^ 31"
  shows "Deserialize (Serialize doc) (length (Serialize doc)) = Some (Inr doc)"
proof -
  define w :: "32 word" where "w = of_nat (length (Serialize doc))"
  have S: "Serialize doc = le32 w @ serialize_elements doc @ [0]"
    unfolding w_def by (rule Serialize_shape)
  have rd: "ReadInt32 (Serialize doc) 0 = Inr (w, 4)"
    using ReadInt32_at [where pre = "[]" and w = w and rest = "serialize_elements doc @ [0]"
        and offset = 0 and data = "Serialize doc"] S
    by simp
  have sz: "size_t_of_int32 w = length (Serialize doc)"
    unfolding w_def using assms(2) by (rule size_t_of_int32_of_nat)
  have "deserialize_loop (Serialize doc @ []) (loop_bound w) 4 [] = Some (Inr doc)"
    unfolding w_def using round_trip_induct(1) [of doc] assms by blast
  then show ?thesis
    by (simp add: Deserialize_def rd sz)
qed

text \<open>The example documents.\<close>

lemmas bson_eval = Serialize.simps AppendCString_def AppendString_def le32_def le64_def
  Deserialize_vector_def Deserialize_def ReadInt32_def ReadInt64_def ReadDouble_def
  ReadCString_def ReadString_def size_t_of_int32_def size_t_add_def loop_bound_def

lemma Serialize_alice: "Serialize alice_document = alice_bytes"
  by (simp add: alice_document_def alice_bytes_def bson_eval)

lemma encodable_alice: "encodable_doc alice_document"
  by (simp add: alice_document_def)

lemma Serialize_nul_key:
  "Serialize nul_key_document = [14, 0, 0, 0, 16, 97, 0, 98, 0, 1, 0, 0, 0, 0]"
  by (simp add: nul_key_document_def bson_eval)

lemma Deserialize_nul_key:
  "Deserialize_vector [14, 0, 0, 0, 16, 97, 0, 98, 0, 1, 0, 0, 0, 0] = Some (Inr [([97], BsonInt32 65634)])"
  apply (simp add: bson_eval)
  apply (subst deserialize_loop.simps)
  apply (simp add: bson_eval)
  apply (subst deserialize_loop.simps)
  apply (simp add: bson_eval)
  done

text \<open>
  A null field is not written: the document \<open>{a: null}\<close> has the encoding of the
  empty document, and the empty document is what comes back. \<open>NULL_TYPE = 0x0A\<close> of
  \<^verbatim>\<open>bson_types.h\<close> is used by neither function.
\<close>

lemma Serialize_drops_null:
  "Serialize null_document = Serialize [] \<and>
   Deserialize_vector (Serialize null_document) = Some (Inr [])"
  apply (simp add: null_document_def bson_eval)
  apply (subst deserialize_loop.simps)
  apply simp
  done

text \<open>
  C1, for the documents the format can carry. Let \<open>doc\<close> be a document in which, at
  every depth, no field name contains a zero byte and no value is null (the values are
  doubles, strings, nested documents, booleans, 32-bit and 64-bit integers), and whose
  encoding is shorter than \<open>2^31\<close> bytes. Then \<open>Deserialize\<close> returns on
  \<open>Serialize(doc)\<close>, without an exception and without reading outside the buffer, and
  the document it returns is \<open>doc\<close>: the same fields in the same order, with the same
  types and the same values (a double with the same bits).
\<close>

theorem Serialize_Deserialize_round_trip:
  assumes "encodable_doc doc" and "length (Serialize doc) < 2 ^ 31"
  shows "Deserialize_vector (Serialize doc) = Some (Inr doc)"
  unfolding Deserialize_vector_def using assms by (rule Deserialize_Serialize)

theorem Serialize_Deserialize_round_trip_witness:
  "encodable_doc alice_document \<and> Serialize alice_document = alice_bytes \<and>
   Deserialize_vector alice_bytes = Some (Inr alice_document)"
proof -
  have len: "length (Serialize alice_document) < 2 ^ 31"
    by (simp add: Serialize_alice alice_bytes_def)
  have "Deserialize_vector (Serialize alice_document) = Some (Inr alice_document)"
    using encodable_alice len by (rule Serialize_Deserialize_round_trip)
  then have "Deserialize_vector alice_bytes = Some (Inr alice_document)"
    by (simp only: Serialize_alice)
  with encodable_alice Serialize_alice show ?thesis
    by (intro conjI)
qed

text \<open>
  Without the condition on the field names the round trip fails: the document
  whose only field has the name \<open>61 00 62\<close> and the \<open>int32_t\<close> value \<open>1\<close> is written
  as \<open>0E 00 00 00 | 10 | 61 00 62 00 | 01 00 00 00 | 00\<close>;
  \<open>ReadCString\<close> stops at the first zero byte, so the field comes back as \<open>"a"\<close> and
  its value is read from the bytes \<open>62 00 01 00\<close>, which is \<open>65634\<close>.
\<close>

theorem Serialize_Deserialize_nul_key_counterexample:
  "Deserialize_vector (Serialize nul_key_document) = Some (Inr [([97], BsonInt32 65634)]) \<and>
   [([97], BsonInt32 65634)] \<noteq> nul_key_document"
  by (simp add: Serialize_nul_key Deserialize_nul_key) (simp add: nul_key_document_def)

end
